theory Spec2Isabelle
  imports Main
begin

chapter \<open>The critic extension\<close>

text \<open>
  A model of \<^verbatim>\<open>extensions/critic/index.ts\<close>: the loop governor and feedback router
  (\<^verbatim>\<open>triggerCritic\<close>, lines 752-878), the handlers \<^verbatim>\<open>context\<close> (1146-1153),
  \<^verbatim>\<open>before_agent_start\<close> (1156-1164) and \<^verbatim>\<open>session_start\<close> (1237-1293), the context
  curator (\<^verbatim>\<open>formatRecentContext\<close>, 186-245), the verdict parser (632-647 and 399-410) and
  the two runners (\<^verbatim>\<open>runCriticSync\<close>, 299-430, and \<^verbatim>\<open>runCritic\<close>, 432-674).
\<close>

section \<open>JavaScript strings\<close>

text \<open>
  A JavaScript string is a sequence of UTF-16 code units.  A code unit is modelled by its
  number, so that the white space of \<^verbatim>\<open>\s\<close> and \<^verbatim>\<open>trim()\<close> beyond Latin-1 can be
  written down.  \<open>js\<close> embeds an ASCII literal of the source.
\<close>

type_synonym jsstring = "nat list"

definition js :: "string \<Rightarrow> jsstring" where
  "js s = map of_char s"

text \<open>
  Truthiness of an optional string (\<^verbatim>\<open>if (result.error)\<close>, \<^verbatim>\<open>!result.error\<close>):
  \<^verbatim>\<open>undefined\<close> and the empty string are falsy.
\<close>

fun truthy :: "jsstring option \<Rightarrow> bool" where
  "truthy None = False"
| "truthy (Some s) = (s \<noteq> [])"

text \<open>
  \<^verbatim>\<open>WhiteSpace\<close> and \<^verbatim>\<open>LineTerminator\<close> of ECMAScript: the code units matched by
  \<^verbatim>\<open>\s\<close> and stripped by \<^verbatim>\<open>String.prototype.trim\<close>.
\<close>

definition is_space :: "nat \<Rightarrow> bool" where
  "is_space c =
     (c = 9 \<or> c = 10 \<or> c = 11 \<or> c = 12 \<or> c = 13 \<or> c = 32 \<or> c = 160 \<or> c = 5760 \<or>
      (8192 \<le> c \<and> c \<le> 8202) \<or> c = 8232 \<or> c = 8233 \<or> c = 8239 \<or> c = 8287 \<or>
      c = 12288 \<or> c = 65279)"

definition trim :: "jsstring \<Rightarrow> jsstring" where
  "trim s = rev (dropWhile is_space (rev (dropWhile is_space s)))"

text \<open>\<^verbatim>\<open>String.prototype.startsWith\<close> (case sensitive).\<close>

fun startsWith :: "jsstring \<Rightarrow> jsstring \<Rightarrow> bool" where
  "startsWith s [] = True"
| "startsWith [] (p # ps) = False"
| "startsWith (c # cs) (p # ps) = (c = p \<and> startsWith cs ps)"

text \<open>
  \<^verbatim>\<open>Array.prototype.join\<close> on strings.
\<close>

fun join :: "jsstring \<Rightarrow> jsstring list \<Rightarrow> jsstring" where
  "join sep [] = []"
| "join sep [x] = x"
| "join sep (x # y # ys) = x @ sep @ join sep (y # ys)"

text \<open>
  The decimal numeral a template literal prints for an integer
  (\<^verbatim>\<open>`${state.maxReviewsPerPrompt}`\<close>).  JavaScript switches to exponent notation from
  \<open>10\<^sup>2\<^sup>1\<close> on; no statement below depends on the digits.
\<close>

function digits :: "nat \<Rightarrow> jsstring" where
  "digits n = (if n < 10 then [48 + n] else digits (n div 10) @ [48 + n mod 10])"
  by pat_completeness auto
termination
  by (relation "measure id") auto

definition num_to_string :: "int \<Rightarrow> jsstring" where
  "num_to_string i = (if i < 0 then 45 # digits (nat (- i)) else digits (nat i))"

section \<open>Data model of the critic extension\<close>

text \<open>
  \<^verbatim>\<open>interface CriticResult\<close>.  The reporting fields \<^verbatim>\<open>model\<close>, \<^verbatim>\<open>usage\<close> and
  \<^verbatim>\<open>durationMs\<close> are read by the renderer only and are left out.  An optional field is an
  \<open>option\<close>; \<^verbatim>\<open>status\<close> is the string the code stores.
\<close>

record CriticResult =
  critique :: jsstring
  approved :: bool
  status :: "jsstring option"
  error :: "jsstring option"
  timedOut :: "bool option"

datatype TriggerMode = TurnEnd | ToolResult | AgentEnd | Visual

datatype ContextMode = Full | Messages | ResultsOnly

text \<open>
  \<^verbatim>\<open>interface CriticState\<close>: the fields the trigger logic and the dispatcher read.  The
  model identifier, the system prompt, the timeout and the debug switch only parametrise the
  subprocess and the logging.
\<close>

record CriticState =
  enabled :: bool
  triggerMode :: TriggerMode
  triggerTools :: "jsstring list"
  maxReviewsPerPrompt :: int
  contextMode :: ContextMode

text \<open>\<^verbatim>\<open>interface CriticRuntimeState\<close>; \<^verbatim>\<open>boolean | null\<close> is a \<open>bool option\<close>.\<close>

record CriticRuntimeState =
  reviewsThisPrompt :: int
  lastUserPromptTime :: int
  isProcessingCritic :: bool
  lastVerdictApproved :: "bool option"

text \<open>The two objects \<^verbatim>\<open>criticExtension\<close> creates.\<close>

definition initial_state :: CriticState where
  "initial_state =
     \<lparr>enabled = False, triggerMode = TurnEnd,
      triggerTools = [js ''write'', js ''edit'', js ''bash''],
      maxReviewsPerPrompt = 3, contextMode = Messages\<rparr>"

definition initial_runtime :: CriticRuntimeState where
  "initial_runtime =
     \<lparr>reviewsThisPrompt = 0, lastUserPromptTime = 0, isProcessingCritic = False,
      lastVerdictApproved = None\<rparr>"

section \<open>Conversation entries\<close>

text \<open>
  The content blocks and messages \<^verbatim>\<open>formatRecentContext\<close> and the \<^verbatim>\<open>context\<close> handler
  look at.  A tool call carries its name and \<^verbatim>\<open>JSON.stringify(tc.arguments)\<close>; a tool
  result carries \<^verbatim>\<open>toolName\<close>, its content and \<^verbatim>\<open>details?.diff\<close>.  A custom message is
  what \<^verbatim>\<open>pi.sendMessage\<close> is given: \<^verbatim>\<open>customType\<close>, \<^verbatim>\<open>content\<close>, \<^verbatim>\<open>display\<close> and the
  \<^verbatim>\<open>CriticDetails\<close> (result and context).
\<close>

datatype ContentBlock =
    TextContent jsstring
  | ThinkingContent jsstring
  | ToolCall jsstring jsstring
  | OtherContent

datatype UserContent = ContentString jsstring | ContentBlocks "ContentBlock list"

datatype AgentMessage =
    UserMessage UserContent
  | AssistantMessage "ContentBlock list"
  | ToolResultMessage "jsstring option" "ContentBlock list" "jsstring option"
  | CustomMessage jsstring jsstring bool "(CriticResult \<times> jsstring) option"
  | OtherMessage

fun customType :: "AgentMessage \<Rightarrow> jsstring option" where
  "customType (CustomMessage t c d details) = Some t"
| "customType m = None"

section \<open>The loop governor and the feedback router: \<^verbatim>\<open>triggerCritic\<close>\<close>

text \<open>
  What \<^verbatim>\<open>triggerCritic\<close> does to the outside: it runs the reviewer
  (\<^verbatim>\<open>runCriticSync\<close> or \<^verbatim>\<open>runCritic\<close>, on the context string), sends the display message
  (\<^verbatim>\<open>pi.sendMessage\<close>) and sends user messages (\<^verbatim>\<open>pi.sendUserMessage\<close> with
  \<^verbatim>\<open>deliverAs\<close>).  Logging and the working message of the UI are not modelled.
\<close>

datatype DeliverAs = Steer | FollowUp

datatype Effect =
    RunReviewer jsstring bool
  | SendMessage AgentMessage
  | SendUserMessage jsstring DeliverAs

definition stop_message :: "CriticState \<Rightarrow> jsstring" where
  "stop_message st =
     js ''[Critic]: STOP. Maximum review attempts ('' @ num_to_string (maxReviewsPerPrompt st) @
     js '') reached without approval. Wait for user input before continuing.''"

definition feedback_message :: "CriticResult \<Rightarrow> jsstring" where
  "feedback_message result = js ''[Critic feedback]: '' @ critique result"

definition display_message :: "CriticResult \<Rightarrow> jsstring \<Rightarrow> AgentMessage" where
  "display_message result contextStr =
     CustomMessage (js ''critic-review'') (critique result) True (Some (result, contextStr))"

text \<open>
  \<^verbatim>\<open>triggerCritic\<close> is asynchronous: it suspends while the reviewer runs (and once more
  before the feedback is sent), and other handlers may run meanwhile.  The model therefore
  has two parts.  \<open>triggerCritic_begin\<close> is the code up to the reviewer call: the three
  guards, then the flag and the counter.  It returns whether a review starts, the runtime
  state and the effects of a refusal.
\<close>

definition triggerCritic_begin ::
  "CriticState \<Rightarrow> CriticRuntimeState \<Rightarrow> bool \<times> CriticRuntimeState \<times> Effect list" where
  "triggerCritic_begin st rt =
     (if \<not> enabled st then (False, rt, [])
      else if isProcessingCritic rt then (False, rt, [])
      else if reviewsThisPrompt rt \<ge> maxReviewsPerPrompt st then
        (False, rt,
         if lastVerdictApproved rt = Some False
         then [SendUserMessage (stop_message st) Steer] else [])
      else
        (True,
         rt\<lparr>isProcessingCritic := True, reviewsThisPrompt := reviewsThisPrompt rt + 1\<rparr>,
         []))"

text \<open>
  \<open>triggerCritic_finish\<close> is the rest of the \<^verbatim>\<open>try\<close> block with its \<^verbatim>\<open>catch\<close> and
  \<^verbatim>\<open>finally\<close>.  The reviewer call either returns a \<^verbatim>\<open>CriticResult\<close> (\<open>Inr\<close>) or throws
  (\<open>Inl\<close>, caught and logged by \<^verbatim>\<open>triggerCritic\<close>).
\<close>

definition triggerCritic_finish ::
  "CriticState \<Rightarrow> CriticRuntimeState \<Rightarrow> jsstring \<Rightarrow> jsstring + CriticResult \<Rightarrow>
   CriticRuntimeState \<times> Effect list" where
  "triggerCritic_finish st rt contextStr outcome =
     (case outcome of
        Inl err \<Rightarrow> (rt\<lparr>isProcessingCritic := False\<rparr>, [])
      | Inr result \<Rightarrow>
          (rt\<lparr>lastVerdictApproved := Some (approved result), isProcessingCritic := False\<rparr>,
           SendMessage (display_message result contextStr) #
           (if \<not> approved result \<and> \<not> truthy (error result) \<and> trim (critique result) \<noteq> []
            then (if reviewsThisPrompt rt < maxReviewsPerPrompt st
                  then [SendUserMessage (feedback_message result) FollowUp] else [])
            else [])))"

text \<open>
  One whole call of \<^verbatim>\<open>triggerCritic\<close> with nothing interleaved, as with
  \<^verbatim>\<open>useSync = true\<close>, which every caller passes.
\<close>

definition triggerCritic ::
  "CriticState \<Rightarrow> CriticRuntimeState \<Rightarrow> jsstring \<Rightarrow> bool \<Rightarrow> jsstring + CriticResult \<Rightarrow>
   CriticRuntimeState \<times> Effect list" where
  "triggerCritic st rt contextStr useSync outcome =
     (case triggerCritic_begin st rt of
        (False, rt', effs) \<Rightarrow> (rt', effs)
      | (True, rt', effs) \<Rightarrow>
          (case triggerCritic_finish st rt' contextStr outcome of
             (rt'', effs') \<Rightarrow> (rt'', RunReviewer contextStr useSync # effs')))"

text \<open>
  The \<^verbatim>\<open>before_agent_start\<close> handler (lines 1156-1164); \<open>now\<close> is \<^verbatim>\<open>Date.now()\<close>.
\<close>

definition before_agent_start ::
  "jsstring \<Rightarrow> int \<Rightarrow> CriticRuntimeState \<Rightarrow> CriticRuntimeState" where
  "before_agent_start prompt now rt =
     (if \<not> startsWith prompt (js ''[Critic'')
      then rt\<lparr>reviewsThisPrompt := 0, lastUserPromptTime := now, lastVerdictApproved := None\<rparr>
      else rt)"

text \<open>The \<^verbatim>\<open>context\<close> handler (lines 1146-1153).\<close>

definition context_handler :: "AgentMessage list \<Rightarrow> AgentMessage list" where
  "context_handler messages =
     filter (\<lambda>m. customType m \<noteq> Some (js ''critic-review'')) messages"

section \<open>Session start and the event loop\<close>

text \<open>
  The flags \<^verbatim>\<open>session_start\<close> reads, as the handler sees them: whether
  \<^verbatim>\<open>pi.getFlag("critic") === true\<close>, the string of \<^verbatim>\<open>critic-trigger\<close>, and the number
  obtained from \<^verbatim>\<open>critic-max-reviews\<close> (the flag is registered with type \<^verbatim>\<open>"string"\<close>, so
  the number is the integer \<^verbatim>\<open>parseInt\<close> returns; \<open>None\<close> is \<^verbatim>\<open>NaN\<close>).  The persisted
  \<^verbatim>\<open>critic-state\<close> entry holds what \<^verbatim>\<open>persistState\<close> wrote; a missing field is \<open>None\<close>.
\<close>

record Flags =
  flag_critic :: bool
  flag_trigger :: "jsstring option"
  flag_maxReviews :: "int option"

record StateEntry =
  entry_enabled :: "bool option"
  entry_triggerMode :: "TriggerMode option"
  entry_triggerTools :: "jsstring list option"
  entry_contextMode :: "ContextMode option"

definition trigger_of_flag :: "jsstring option \<Rightarrow> TriggerMode option" where
  "trigger_of_flag f =
     (if f = Some (js ''turn_end'') then Some TurnEnd
      else if f = Some (js ''tool_result'') then Some ToolResult
      else if f = Some (js ''agent_end'') then Some AgentEnd
      else if f = Some (js ''visual'') then Some Visual
      else None)"

text \<open>\<^verbatim>\<open>a ?? b\<close>.\<close>

fun nullish :: "'a option \<Rightarrow> 'a \<Rightarrow> 'a" where
  "nullish None b = b"
| "nullish (Some a) b = a"

definition session_start :: "Flags \<Rightarrow> StateEntry option \<Rightarrow> CriticState \<Rightarrow> CriticState" where
  "session_start fl stateEntry st =
     (let st1 = (if flag_critic fl then st\<lparr>enabled := True\<rparr> else st);
          st2 = (case trigger_of_flag (flag_trigger fl) of
                   Some m \<Rightarrow> st1\<lparr>triggerMode := m\<rparr> | None \<Rightarrow> st1);
          st3 = (case flag_maxReviews fl of
                   Some n \<Rightarrow> if n > 0 then st2\<lparr>maxReviewsPerPrompt := n\<rparr> else st2
                 | None \<Rightarrow> st2)
      in case stateEntry of
           None \<Rightarrow> st3
         | Some d \<Rightarrow>
             st3\<lparr>enabled := nullish (entry_enabled d) (enabled st3),
                 triggerMode := nullish (entry_triggerMode d) (triggerMode st3),
                 triggerTools := nullish (entry_triggerTools d) (triggerTools st3),
                 contextMode := nullish (entry_contextMode d) (contextMode st3)\<rparr>)"

text \<open>
  The extension instance as a transition system.  \<open>cfg\<close> and \<open>runtime\<close> are the two shared
  objects; \<open>inflight\<close> lists the context strings of the reviewer calls that have started and
  not yet returned; \<open>effects\<close> is the trace of what was done to the outside.  An event is a
  call of \<^verbatim>\<open>triggerCritic\<close> by one of the trigger handlers, the return of the pending
  reviewer call, the \<^verbatim>\<open>before_agent_start\<close> handler, the \<^verbatim>\<open>session_start\<close> handler, or one
  of the commands \<^verbatim>\<open>/critic\<close>, \<^verbatim>\<open>/critic-trigger\<close>, \<^verbatim>\<open>/critic-context\<close>.  The flags of the
  process are fixed for its lifetime.
\<close>

record System =
  cfg :: CriticState
  runtime :: CriticRuntimeState
  inflight :: "jsstring list"
  effects :: "Effect list"

datatype Event =
    EvTrigger jsstring bool
  | EvReviewerDone "jsstring + CriticResult"
  | EvBeforeAgentStart jsstring int
  | EvSessionStart "StateEntry option"
  | EvToggle
  | EvSetTrigger TriggerMode
  | EvSetContext ContextMode

fun step :: "Flags \<Rightarrow> System \<Rightarrow> Event \<Rightarrow> System" where
  "step fl s (EvTrigger contextStr useSync) =
     (case triggerCritic_begin (cfg s) (runtime s) of
        (True, rt', effs) \<Rightarrow>
          s\<lparr>runtime := rt', inflight := inflight s @ [contextStr],
            effects := effects s @ [RunReviewer contextStr useSync]\<rparr>
      | (False, rt', effs) \<Rightarrow> s\<lparr>runtime := rt', effects := effects s @ effs\<rparr>)"
| "step fl s (EvReviewerDone outcome) =
     (case inflight s of
        [] \<Rightarrow> s
      | contextStr # rest \<Rightarrow>
          (case triggerCritic_finish (cfg s) (runtime s) contextStr outcome of
             (rt', effs) \<Rightarrow> s\<lparr>runtime := rt', inflight := rest, effects := effects s @ effs\<rparr>))"
| "step fl s (EvBeforeAgentStart prompt now) =
     s\<lparr>runtime := before_agent_start prompt now (runtime s)\<rparr>"
| "step fl s (EvSessionStart stateEntry) = s\<lparr>cfg := session_start fl stateEntry (cfg s)\<rparr>"
| "step fl s EvToggle = s\<lparr>cfg := (cfg s)\<lparr>enabled := \<not> enabled (cfg s)\<rparr>\<rparr>"
| "step fl s (EvSetTrigger m) = s\<lparr>cfg := (cfg s)\<lparr>triggerMode := m\<rparr>\<rparr>"
| "step fl s (EvSetContext m) = s\<lparr>cfg := (cfg s)\<lparr>contextMode := m\<rparr>\<rparr>"

text \<open>
  A session: the extension is loaded, \<^verbatim>\<open>session_start\<close> runs, then events arrive.
\<close>

definition boot :: "Flags \<Rightarrow> StateEntry option \<Rightarrow> System" where
  "boot fl stateEntry =
     \<lparr>cfg = session_start fl stateEntry initial_state, runtime = initial_runtime,
      inflight = [], effects = []\<rparr>"

definition run :: "Flags \<Rightarrow> StateEntry option \<Rightarrow> Event list \<Rightarrow> System" where
  "run fl stateEntry evs = foldl (step fl) (boot fl stateEntry) evs"

fun is_RunReviewer :: "Effect \<Rightarrow> bool" where
  "is_RunReviewer (RunReviewer c u) = True"
| "is_RunReviewer e = False"

fun is_SendMessage :: "Effect \<Rightarrow> bool" where
  "is_SendMessage (SendMessage m) = True"
| "is_SendMessage e = False"

fun is_SendUserMessage :: "Effect \<Rightarrow> bool" where
  "is_SendUserMessage (SendUserMessage m d) = True"
| "is_SendUserMessage e = False"

text \<open>A prompt \<^verbatim>\<open>before_agent_start\<close> takes for a new user request.\<close>

fun genuine_prompt :: "Event \<Rightarrow> bool" where
  "genuine_prompt (EvBeforeAgentStart prompt now) = (\<not> startsWith prompt (js ''[Critic''))"
| "genuine_prompt e = False"

section \<open>The context curator: \<^verbatim>\<open>formatRecentContext\<close>\<close>

text \<open>
  \<^verbatim>\<open>getTextContent\<close>, and the same \<^verbatim>\<open>filter\<close>/\<^verbatim>\<open>map\<close>/\<^verbatim>\<open>join("\n")\<close> chain written out in
  \<^verbatim>\<open>formatRecentContext\<close>: the texts of the text blocks, joined by a line feed.
\<close>

fun block_text :: "ContentBlock \<Rightarrow> jsstring option" where
  "block_text (TextContent t) = Some t"
| "block_text b = None"

fun block_thinking :: "ContentBlock \<Rightarrow> jsstring option" where
  "block_thinking (ThinkingContent t) = Some t"
| "block_thinking b = None"

fun block_toolCall :: "ContentBlock \<Rightarrow> (jsstring \<times> jsstring) option" where
  "block_toolCall (ToolCall name arguments) = Some (name, arguments)"
| "block_toolCall b = None"

definition getTextContent :: "ContentBlock list \<Rightarrow> jsstring" where
  "getTextContent content = join [10] (List.map_filter block_text content)"

text \<open>
  \<^verbatim>\<open>xs.slice(-n)\<close> for a count \<open>n\<close>: the last \<open>n\<close> elements, all of them when there are fewer;
  \<^verbatim>\<open>slice(-0)\<close> is \<^verbatim>\<open>slice(0)\<close>, the whole array.
\<close>

definition slice_from_end :: "nat \<Rightarrow> 'a list \<Rightarrow> 'a list" where
  "slice_from_end n xs = (if n = 0 then xs else drop (length xs - n) xs)"

definition messagesToProcess :: "AgentMessage list \<Rightarrow> ContextMode \<Rightarrow> nat \<Rightarrow> AgentMessage list"
  where
  "messagesToProcess messages mode maxMessages =
     (if mode = ResultsOnly then slice_from_end 1 messages
      else slice_from_end maxMessages messages)"

text \<open>
  The body of the loop: the strings one message pushes onto \<^verbatim>\<open>parts\<close>.  A message of any
  other role pushes nothing.
\<close>

fun format_message :: "ContextMode \<Rightarrow> AgentMessage \<Rightarrow> jsstring list" where
  "format_message mode (UserMessage content) =
     [js ''USER: '' @
      (case content of ContentString s \<Rightarrow> s | ContentBlocks bs \<Rightarrow> getTextContent bs)]"
| "format_message mode (AssistantMessage content) =
     (if mode = Full
      then map (\<lambda>t. js ''THINKING: '' @ t) (List.map_filter block_thinking content) else []) @
     map (\<lambda>(name, arguments). js ''TOOL CALL: '' @ name @ js ''('' @ take 200 arguments @ js ''...)'')
       (List.map_filter block_toolCall content) @
     (if getTextContent content \<noteq> [] then [js ''ASSISTANT: '' @ getTextContent content] else [])"
| "format_message mode (ToolResultMessage toolName content diff) =
     (if toolName = Some (js ''edit'') \<and> truthy diff
      then [js ''TOOL RESULT (edit) - DIFF:'' @ [10] @ the diff]
      else [js ''TOOL RESULT ('' @ (if truthy toolName then the toolName else js ''unknown'') @
            js ''): '' @
            (if length (getTextContent content) > 500
             then take 500 (getTextContent content) @ js ''...''
             else getTextContent content)])"
| "format_message mode m = []"

definition formatRecentContext :: "AgentMessage list \<Rightarrow> ContextMode \<Rightarrow> nat \<Rightarrow> jsstring" where
  "formatRecentContext messages mode maxMessages =
     join [10, 10]
       (concat (map (format_message mode)
          (messagesToProcess messages mode maxMessages)))"

section \<open>The regular expressions of the verdict parser\<close>

text \<open>
  Both patterns carry the flag \<^verbatim>\<open>i\<close> and not \<^verbatim>\<open>u\<close>, and all their literal characters are
  ASCII.  Under this flag two code units match when their canonical forms are equal, and
  ECMAScript's \<^verbatim>\<open>Canonicalize\<close> never maps a code unit from 128 on to an ASCII one.  So
  against an ASCII pattern character only the two cases of an ASCII letter are identified;
  \<open>canonicalize\<close> is the upper case of an ASCII letter and the identity elsewhere.
  \<^verbatim>\<open>toUpperCase\<close> is modelled on the ASCII range, where it does the same; the parser applies
  it to the captured keyword, which holds ASCII letters and the underscore only.
\<close>

definition canonicalize :: "nat \<Rightarrow> nat" where
  "canonicalize c = (if 97 \<le> c \<and> c \<le> 122 then c - 32 else c)"

definition toUpperCase :: "jsstring \<Rightarrow> jsstring" where
  "toUpperCase s = map canonicalize s"

text \<open>
  The fragment of the regular expression syntax the two patterns use: a literal string,
  a greedy star over a character class (\<^verbatim>\<open>\s*\<close>, \<^verbatim>\<open>[\s\S]*\<close>), and a capturing group of
  literal alternatives.  A pattern is the sequence of its atoms.
\<close>

datatype CharClass = Space | AnyChar

datatype Atom = Lit jsstring | Star CharClass | Group "jsstring list"

type_synonym regex = "Atom list"

fun in_class :: "CharClass \<Rightarrow> nat \<Rightarrow> bool" where
  "in_class Space c = is_space c"
| "in_class AnyChar c = True"

text \<open>A literal at the start of the input, case-insensitively: the rest of the input.\<close>

fun lit_prefix :: "jsstring \<Rightarrow> jsstring \<Rightarrow> jsstring option" where
  "lit_prefix [] s = Some s"
| "lit_prefix (p # ps) [] = None"
| "lit_prefix (p # ps) (c # cs) =
     (if canonicalize c = canonicalize p then lit_prefix ps cs else None)"

text \<open>
  The backtracking matcher, anchored at the start of the input.  It returns the text of
  group 1 (empty when the pattern has no group) and the input left after the match.  A star
  takes as many characters as it can and gives them back one at a time; the alternatives of
  a group are tried from left to right.
\<close>

fun alternatives_left :: "regex \<Rightarrow> nat" where
  "alternatives_left (Group as # rs) = length as"
| "alternatives_left rx = 0"

function (sequential) rx_match :: "regex \<Rightarrow> jsstring \<Rightarrow> (jsstring \<times> jsstring) option" where
  "rx_match [] s = Some ([], s)"
| "rx_match (Lit p # rs) s =
     (case lit_prefix p s of None \<Rightarrow> None | Some rest \<Rightarrow> rx_match rs rest)"
| "rx_match (Star k # rs) [] = rx_match rs []"
| "rx_match (Star k # rs) (c # cs) =
     (if in_class k c
      then (case rx_match (Star k # rs) cs of
              Some r \<Rightarrow> Some r
            | None \<Rightarrow> rx_match rs (c # cs))
      else rx_match rs (c # cs))"
| "rx_match (Group [] # rs) s = None"
| "rx_match (Group (a # as) # rs) s =
     (case (case lit_prefix a s of None \<Rightarrow> None | Some rest \<Rightarrow> rx_match rs rest) of
        Some (g, r) \<Rightarrow> Some (take (length a) s, r)
      | None \<Rightarrow> rx_match (Group as # rs) s)"
  by pat_completeness auto
termination
  by (relation "measures [\<lambda>(rx, s). length rx, \<lambda>(rx, s). alternatives_left rx,
                          \<lambda>(rx, s). length s]") auto

text \<open>
  The search of \<^verbatim>\<open>RegExp.prototype.exec\<close>: the leftmost start position at which the
  pattern matches.  The result is the text before the match, group 1, and the text after.
\<close>

fun rx_exec :: "regex \<Rightarrow> jsstring \<Rightarrow> (jsstring \<times> jsstring \<times> jsstring) option" where
  "rx_exec rx [] = (case rx_match rx [] of Some (g, r) \<Rightarrow> Some ([], g, r) | None \<Rightarrow> None)"
| "rx_exec rx (c # cs) =
     (case rx_match rx (c # cs) of
        Some (g, r) \<Rightarrow> Some ([], g, r)
      | None \<Rightarrow> (case rx_exec rx cs of Some (p, g, r) \<Rightarrow> Some (c # p, g, r) | None \<Rightarrow> None))"

text \<open>
  \<^verbatim>\<open>s.match(rx)\<close> for a pattern without the flag \<^verbatim>\<open>g\<close>, as far as the parser reads it
  (\<^verbatim>\<open>verdictMatch[1]\<close>), and \<^verbatim>\<open>s.replace(rx, "")\<close>, which removes the first match.
\<close>

definition js_match :: "jsstring \<Rightarrow> regex \<Rightarrow> jsstring option" where
  "js_match s rx = (case rx_exec rx s of Some (p, g, r) \<Rightarrow> Some g | None \<Rightarrow> None)"

definition js_replace_empty :: "jsstring \<Rightarrow> regex \<Rightarrow> jsstring" where
  "js_replace_empty s rx = (case rx_exec rx s of Some (p, g, r) \<Rightarrow> p @ r | None \<Rightarrow> s)"

text \<open>
  \<^verbatim>\<open>/<critic_verdict>\s*status:\s*(APPROVED|NEEDS_WORK|BLOCKED)\s*<\/critic_verdict>/i\<close> and
  \<^verbatim>\<open>/<critic_verdict>[\s\S]*<\/critic_verdict>/i\<close>.
\<close>

definition VERDICT_RX :: regex where
  "VERDICT_RX =
     [Lit (js ''<critic_verdict>''), Star Space, Lit (js ''status:''), Star Space,
      Group [js ''APPROVED'', js ''NEEDS_WORK'', js ''BLOCKED''], Star Space,
      Lit (js ''</critic_verdict>'')]"

definition STRIP_RX :: regex where
  "STRIP_RX = [Lit (js ''<critic_verdict>''), Star AnyChar, Lit (js ''</critic_verdict>'')]"

text \<open>
  For the proofs: the literal \<open>pat\<close> matches, case-insensitively, at position \<open>k\<close> of \<open>s\<close>.
\<close>

definition occurs :: "jsstring \<Rightarrow> jsstring \<Rightarrow> nat \<Rightarrow> bool" where
  "occurs pat s k = (lit_prefix pat (drop k s) \<noteq> None)"

section \<open>The verdict parser\<close>

text \<open>
  The last step of \<^verbatim>\<open>runCritic\<close> and of \<^verbatim>\<open>runCriticSync\<close>, the same computation in both:
  from the critique text to the critique, \<^verbatim>\<open>approved\<close> and \<^verbatim>\<open>status\<close> fields of the result.
  The status is the string \<^verbatim>\<open>verdictMatch[1].toUpperCase()\<close>, which the code casts without a
  check.
\<close>

record Verdict =
  v_critique :: jsstring
  v_approved :: bool
  v_status :: jsstring

definition parseVerdict :: "jsstring \<Rightarrow> Verdict" where
  "parseVerdict text =
     (case js_match text VERDICT_RX of
        Some g \<Rightarrow>
          \<lparr>v_critique = trim (js_replace_empty text STRIP_RX),
           v_approved = (toUpperCase g = js ''APPROVED''),
           v_status = toUpperCase g\<rparr>
      | None \<Rightarrow> \<lparr>v_critique = text, v_approved = False, v_status = js ''NEEDS_WORK''\<rparr>)"

section \<open>The review process runner\<close>

text \<open>
  What the runner depends on is not its arguments, which only make up the command line, but
  what happens when the reviewer process is run.  That is the input of the model.

  A line of the reviewer's standard output, as far as the code reads it: a line that is
  blank or not JSON, a \<^verbatim>\<open>message_end\<close> event with its \<^verbatim>\<open>message\<close> (if present), an
  \<^verbatim>\<open>error\<close> event with its \<^verbatim>\<open>message\<close> (if present), or any other event.  A message has
  a role and a list of content blocks (\<^verbatim>\<open>Message\<close> of the host's types); its \<^verbatim>\<open>usage\<close> and
  \<^verbatim>\<open>model\<close> only feed the reporting fields left out of \<open>CriticResult\<close>.  A JSON line is
  taken to be an object, which is what the reviewer in \<^verbatim>\<open>--mode json\<close> prints.
\<close>

record ReviewerMessage =
  msg_role :: jsstring
  msg_content :: "ContentBlock list"

datatype OutputLine =
    NotJson
  | MessageEnd "ReviewerMessage option"
  | ErrorEvent "jsstring option"
  | OtherEvent

text \<open>
  The text of the first text block: \<^verbatim>\<open>msg.content?.find((c) => c.type === "text")\<close> in
  \<^verbatim>\<open>runCriticSync\<close>, the inner loop with its \<^verbatim>\<open>break\<close> in \<^verbatim>\<open>runCritic\<close>.
\<close>

fun first_text :: "ContentBlock list \<Rightarrow> jsstring option" where
  "first_text [] = None"
| "first_text (TextContent t # bs) = Some t"
| "first_text (b # bs) = first_text bs"

text \<open>
  The steps that may throw inside the \<^verbatim>\<open>try\<close> block, before the process runs: writing the
  prompt file (\<^verbatim>\<open>writePromptToTempFile\<close>) and the call of \<^verbatim>\<open>spawnSync\<close> or \<^verbatim>\<open>spawn\<close>
  itself.  The string is the message of the exception.  Otherwise the process was spawned
  and \<open>Spawned\<close> carries what came of it.  Logging is taken not to fail.
\<close>

datatype 'a Env = TempFileThrows jsstring | SpawnThrows jsstring | Spawned 'a

text \<open>The \<^verbatim>\<open>catch\<close> block of both runners, on the initial \<^verbatim>\<open>result\<close>.\<close>

definition catch_result :: "jsstring \<Rightarrow> CriticResult" where
  "catch_result err =
     \<lparr>critique = js ''(Critic error: '' @ err @ js '')'', approved = False, status = None,
      error = Some err, timedOut = None\<rparr>"

subsection \<open>\<^verbatim>\<open>runCriticSync\<close>\<close>

text \<open>
  The object \<^verbatim>\<open>spawnSync\<close> returns: the message of \<^verbatim>\<open>error\<close> when that field is set,
  the \<^verbatim>\<open>signal\<close>, and the lines of \<^verbatim>\<open>stdout\<close>.
\<close>

record SpawnSyncReturns =
  sp_error :: "jsstring option"
  sp_signal :: "jsstring option"
  sp_stdout :: "OutputLine list"

text \<open>
  The loop over the lines: an assistant \<^verbatim>\<open>message_end\<close> whose first text block is not
  empty replaces the critique.
\<close>

fun sync_line :: "jsstring \<Rightarrow> OutputLine \<Rightarrow> jsstring" where
  "sync_line crit (MessageEnd (Some msg)) =
     (if msg_role msg = js ''assistant''
      then (case first_text (msg_content msg) of
              Some t \<Rightarrow> if t \<noteq> [] then t else crit
            | None \<Rightarrow> crit)
      else crit)"
| "sync_line crit line = crit"

definition runCriticSync_try :: "SpawnSyncReturns Env \<Rightarrow> jsstring + CriticResult" where
  "runCriticSync_try env =
     (case env of
        TempFileThrows err \<Rightarrow> Inl err
      | SpawnThrows err \<Rightarrow> Inl err
      | Spawned spawnResult \<Rightarrow>
          Inr (case sp_error spawnResult of
                 Some message \<Rightarrow>
                   \<lparr>critique = [], approved = False, status = None, error = Some message,
                    timedOut = None\<rparr>
               | None \<Rightarrow>
                   if sp_signal spawnResult = Some (js ''SIGTERM'')
                   then \<lparr>critique = [], approved = False, status = None,
                         error = Some (js ''Critic timed out''), timedOut = Some True\<rparr>
                   else (let v = parseVerdict (foldl sync_line [] (sp_stdout spawnResult))
                         in \<lparr>critique = v_critique v, approved = v_approved v,
                             status = Some (v_status v), error = None, timedOut = None\<rparr>)))"

text \<open>
  The function with its \<^verbatim>\<open>catch\<close>.  The result type keeps a place (\<open>Inl\<close>) for an
  exception that would reach the caller.
\<close>

definition runCriticSync :: "SpawnSyncReturns Env \<Rightarrow> jsstring + CriticResult" where
  "runCriticSync env =
     (case runCriticSync_try env of
        Inl err \<Rightarrow> Inr (catch_result err)
      | Inr result \<Rightarrow> Inr result)"

subsection \<open>\<^verbatim>\<open>runCritic\<close>\<close>

text \<open>
  What resolves the promise: the \<^verbatim>\<open>close\<close> event with its exit code (\<^verbatim>\<open>null\<close> is \<open>None\<close>)
  or the \<^verbatim>\<open>error\<close> event of the process with the message of the error.  A run of the
  process is the lines handed to \<^verbatim>\<open>processLine\<close> before that, how it ended, and whether the
  timer or the abort signal fired.
\<close>

datatype ProcessEnd = Closed "int option" | ProcessError jsstring

record ProcessRun =
  pr_lines :: "OutputLine list"
  pr_end :: ProcessEnd
  pr_timedOut :: bool
  pr_aborted :: bool

text \<open>\<^verbatim>\<open>processLine\<close> on the pair of \<^verbatim>\<open>messages\<close> and \<^verbatim>\<open>result.error\<close>.\<close>

fun processLine ::
  "ReviewerMessage list \<times> jsstring option \<Rightarrow> OutputLine \<Rightarrow>
   ReviewerMessage list \<times> jsstring option" where
  "processLine (messages, err) (MessageEnd (Some msg)) = (messages @ [msg], err)"
| "processLine (messages, err) (ErrorEvent message) = (messages, message)"
| "processLine (messages, err) line = (messages, err)"

text \<open>The loop from the last message backwards: the first text of the last assistant message.\<close>

definition last_assistant_text :: "ReviewerMessage list \<Rightarrow> jsstring" where
  "last_assistant_text messages =
     (case List.find (\<lambda>msg. msg_role msg = js ''assistant'') (rev messages) of
        None \<Rightarrow> []
      | Some msg \<Rightarrow> (case first_text (msg_content msg) of None \<Rightarrow> [] | Some t \<Rightarrow> t))"

definition exit_code :: "ProcessEnd \<Rightarrow> int" where
  "exit_code e = (case e of Closed code \<Rightarrow> nullish code 0 | ProcessError message \<Rightarrow> 1)"

definition runCritic_try :: "int \<Rightarrow> ProcessRun Env \<Rightarrow> jsstring + CriticResult" where
  "runCritic_try timeoutMs env =
     (case env of
        TempFileThrows err \<Rightarrow> Inl err
      | SpawnThrows err \<Rightarrow> Inl err
      | Spawned proc \<Rightarrow>
          Inr (case foldl processLine ([], None) (pr_lines proc) of
                 (messages, streamError) \<Rightarrow>
                   (let err1 = (case pr_end proc of
                                  ProcessError message \<Rightarrow> Some message
                                | Closed code \<Rightarrow> streamError)
                    in if pr_timedOut proc
                       then \<lparr>critique = js ''(Critic timed out)'', approved = False, status = None,
                             error = Some (js ''Critic timed out after '' @
                                           num_to_string timeoutMs @ js ''ms''),
                             timedOut = Some True\<rparr>
                       else if pr_aborted proc
                       then \<lparr>critique = js ''(Critic was aborted)'', approved = False,
                             status = None, error = Some (js ''Critic was aborted''),
                             timedOut = Some False\<rparr>
                       else (let err2 = (if exit_code (pr_end proc) \<noteq> 0 \<and> \<not> truthy err1
                                         then Some (js ''Critic process exited with code '' @
                                                    num_to_string (exit_code (pr_end proc)))
                                         else err1);
                                 crit = last_assistant_text messages;
                                 empty = (crit = [] \<and> \<not> truthy err2);
                                 v = parseVerdict
                                       (if empty then js ''(No response from critic)'' else crit)
                             in \<lparr>critique = v_critique v, approved = v_approved v,
                                 status = Some (v_status v),
                                 error = (if empty then Some (js ''Critic returned empty response'')
                                          else err2),
                                 timedOut = Some False\<rparr>))))"

definition runCritic :: "int \<Rightarrow> ProcessRun Env \<Rightarrow> jsstring + CriticResult" where
  "runCritic timeoutMs env =
     (case runCritic_try timeoutMs env of
        Inl err \<Rightarrow> Inr (catch_result err)
      | Inr result \<Rightarrow> Inr result)"

section \<open>Example inputs\<close>

text \<open>
  Concrete values at which the theorems below are instantiated: a process started with
  \<^verbatim>\<open>--critic --critic-max-reviews 1\<close>, a reviewer result asking for more work, a user
  request with one review, and what follows once the cap is reached.
\<close>

definition ex_flags :: Flags where
  "ex_flags = \<lparr>flag_critic = True, flag_trigger = None, flag_maxReviews = Some 1\<rparr>"

definition ex_needs_work :: CriticResult where
  "ex_needs_work =
     \<lparr>critique = js ''Handle the null case.'', approved = False,
      status = Some (js ''NEEDS_WORK''), error = None, timedOut = None\<rparr>"

definition ex_request :: "Event list" where
  "ex_request =
     [EvBeforeAgentStart (js ''Fix the bug'') 7, EvTrigger (js ''ctx'') True,
      EvReviewerDone (Inr ex_needs_work)]"

definition ex_after_cap :: "Event list" where
  "ex_after_cap =
     [EvTrigger (js ''ctx'') True, EvBeforeAgentStart (js ''[Critic]: STOP.'') 9,
      EvTrigger (js ''ctx'') True]"

definition ex_enabled :: CriticState where
  "ex_enabled = initial_state\<lparr>enabled := True\<rparr>"

definition ex_exhausted :: CriticRuntimeState where
  "ex_exhausted =
     \<lparr>reviewsThisPrompt = 3, lastUserPromptTime = 7, isProcessingCritic = False,
      lastVerdictApproved = Some False\<rparr>"

definition ex_fresh :: CriticRuntimeState where
  "ex_fresh =
     \<lparr>reviewsThisPrompt = 0, lastUserPromptTime = 7, isProcessingCritic = False,
      lastVerdictApproved = None\<rparr>"

text \<open>
  A request whose review is still running, a reviewer result that is a single space, and a
  conversation that holds a critic review between two ordinary entries.
\<close>

definition ex_in_flight :: "Event list" where
  "ex_in_flight = [EvBeforeAgentStart (js ''Fix the bug'') 7, EvTrigger (js ''ctx'') True]"

definition ex_blank :: CriticResult where
  "ex_blank =
     \<lparr>critique = js '' '', approved = False, status = Some (js ''NEEDS_WORK''), error = None,
      timedOut = None\<rparr>"

definition ex_conversation :: "AgentMessage list" where
  "ex_conversation =
     [UserMessage (ContentString (js ''Fix the bug'')),
      display_message ex_needs_work (js ''ctx''),
      AssistantMessage [TextContent (js ''Done.'')]]"

definition ex_history :: "AgentMessage list" where
  "ex_history =
     [UserMessage (ContentString (js ''Fix the bug'')),
      AssistantMessage [ThinkingContent (js ''hm''), ToolCall (js ''edit'') (js ''{}'')],
      ToolResultMessage (Some (js ''edit'')) [TextContent (js ''ok'')] (Some (js ''+x''))]"

text \<open>
  A critique that ends in a verdict block, in lower case, and one without a block.
\<close>

definition ex_review :: jsstring where
  "ex_review =
     js ''Fix it.'' @ [10] @ js ''<critic_verdict>'' @ [10] @ js ''status: needs_work'' @ [10] @
     js ''</critic_verdict>''"

definition ex_plain :: jsstring where
  "ex_plain = js ''Looks good to me.''"

text \<open>
  What \<^verbatim>\<open>spawnSync\<close> returns when its \<^verbatim>\<open>timeout\<close> expires: Node kills the child with
  \<^verbatim>\<open>SIGTERM\<close> and reports the timeout in \<^verbatim>\<open>error\<close> (\<^verbatim>\<open>ETIMEDOUT\<close>), so both fields are
  set.  Then a reviewer that could not be launched, under \<^verbatim>\<open>spawn\<close>; a reviewer that
  exits with code 0 and prints nothing; and one whose only output is a blank text.
\<close>

definition ex_sync_timeout :: SpawnSyncReturns where
  "ex_sync_timeout =
     \<lparr>sp_error = Some (js ''spawnSync pi ETIMEDOUT''), sp_signal = Some (js ''SIGTERM''),
      sp_stdout = []\<rparr>"

definition ex_launch_failure :: ProcessRun where
  "ex_launch_failure =
     \<lparr>pr_lines = [], pr_end = ProcessError (js ''spawn pi ENOENT''), pr_timedOut = False,
      pr_aborted = False\<rparr>"

definition ex_silent :: ProcessRun where
  "ex_silent = \<lparr>pr_lines = [], pr_end = Closed (Some 0), pr_timedOut = False, pr_aborted = False\<rparr>"

definition ex_blank_output :: SpawnSyncReturns where
  "ex_blank_output =
     \<lparr>sp_error = None, sp_signal = None,
      sp_stdout = [MessageEnd (Some \<lparr>msg_role = js ''assistant'',
                                     msg_content = [TextContent (js '' '')]\<rparr>)]\<rparr>"

text \<open>
  A critique whose verdict block approves, written in mixed case, and the output of a
  reviewer that prints it.
\<close>

definition ex_approved :: jsstring where
  "ex_approved =
     (js ''LGTM.'' @ [10]) @ js ''<critic_verdict>'' @ [10] @ js ''status:'' @ [32] @
     js ''Approved'' @ [10] @ js ''</CRITIC_VERDICT>'' @ [10]"

definition ex_approved_output :: SpawnSyncReturns where
  "ex_approved_output =
     \<lparr>sp_error = None, sp_signal = None,
      sp_stdout = [NotJson,
                   MessageEnd (Some \<lparr>msg_role = js ''assistant'',
                                     msg_content = [TextContent ex_approved]\<rparr>)]\<rparr>"

definition ex_approved_run :: ProcessRun where
  "ex_approved_run =
     \<lparr>pr_lines = sp_stdout ex_approved_output, pr_end = Closed (Some 0),
      pr_timedOut = False, pr_aborted = False\<rparr>"

section \<open>Evaluation of the examples\<close>

lemmas ev_defs =
  run_def boot_def session_start_def initial_state_def initial_runtime_def
  triggerCritic_def triggerCritic_begin_def triggerCritic_finish_def before_agent_start_def
  js_def trigger_of_flag_def display_message_def feedback_message_def stop_message_def
  trim_def is_space_def num_to_string_def
  ex_flags_def ex_needs_work_def ex_request_def ex_after_cap_def ex_enabled_def
  ex_exhausted_def ex_fresh_def ex_in_flight_def ex_blank_def ex_conversation_def
  context_handler_def ex_history_def

section \<open>The messages the critic sends to the agent\<close>

lemma stop_message_prefix: "startsWith (stop_message st) (js ''[Critic'')"
  by (simp add: stop_message_def js_def)

lemma feedback_message_prefix: "startsWith (feedback_message r) (js ''[Critic'')"
  by (simp add: feedback_message_def js_def)

lemma begin_user_messages:
  "triggerCritic_begin st rt = (b, rt', effs) \<Longrightarrow> SendUserMessage m d \<in> set effs \<Longrightarrow>
     m = stop_message st \<and> d = Steer"
  by (auto simp: triggerCritic_begin_def split: if_splits)

lemma finish_user_messages:
  "triggerCritic_finish st rt c outcome = (rt', effs) \<Longrightarrow> SendUserMessage m d \<in> set effs \<Longrightarrow>
     (\<exists>r. outcome = Inr r \<and> m = feedback_message r \<and> d = FollowUp)"
  by (auto simp: triggerCritic_finish_def split: sum.splits if_splits)

lemma triggerCritic_user_messages:
  assumes "SendUserMessage m d \<in> set (snd (triggerCritic st rt c u outcome))"
  shows "startsWith m (js ''[Critic'')"
proof -
  obtain b rt' effs where b: "triggerCritic_begin st rt = (b, rt', effs)"
    by (cases "triggerCritic_begin st rt") auto
  show ?thesis
  proof (cases b)
    case False
    with b assms have "SendUserMessage m d \<in> set effs"
      by (simp add: triggerCritic_def)
    with b show ?thesis using begin_user_messages stop_message_prefix by metis
  next
    case True
    obtain rt'' effs' where f: "triggerCritic_finish st rt' c outcome = (rt'', effs')"
      by (cases "triggerCritic_finish st rt' c outcome") auto
    with b True assms have "SendUserMessage m d \<in> set effs'"
      by (simp add: triggerCritic_def)
    with f show ?thesis using finish_user_messages feedback_message_prefix by metis
  qed
qed

text \<open>
  Claim C10.  \<^verbatim>\<open>before_agent_start\<close> resets the per-request state (review counter, prompt
  time, last verdict) exactly when the prompt does not start with \<^verbatim>\<open>[Critic\<close>: such a prompt
  sets the three fields and leaves the in-flight flag alone, any prompt with the prefix (a
  user's own included) leaves the runtime state as it is.  Every user message
  \<^verbatim>\<open>triggerCritic\<close> sends, the feedback follow-up and the stop instruction, starts with the
  prefix, so none of them resets the state.
\<close>

theorem critic_prompts_never_reset:
  "(\<not> startsWith prompt (js ''[Critic'') \<longrightarrow>
      before_agent_start prompt now rt =
        rt\<lparr>reviewsThisPrompt := 0, lastUserPromptTime := now, lastVerdictApproved := None\<rparr>) \<and>
   (startsWith prompt (js ''[Critic'') \<longrightarrow> before_agent_start prompt now rt = rt) \<and>
   (\<forall>m d. SendUserMessage m d \<in> set (snd (triggerCritic st rt' c u outcome)) \<longrightarrow>
      startsWith m (js ''[Critic'') \<and> before_agent_start m now rt = rt)"
  using triggerCritic_user_messages by (auto simp: before_agent_start_def)

theorem critic_prompts_never_reset_witness:
  "\<not> startsWith (js ''Fix the bug'') (js ''[Critic'') \<and>
   before_agent_start (js ''Fix the bug'') 8 ex_exhausted =
     ex_exhausted\<lparr>reviewsThisPrompt := 0, lastUserPromptTime := 8, lastVerdictApproved := None\<rparr> \<and>
   startsWith (js ''[Critic] is mentioned in my notes'') (js ''[Critic'') \<and>
   before_agent_start (js ''[Critic] is mentioned in my notes'') 8 ex_exhausted = ex_exhausted \<and>
   SendUserMessage (stop_message ex_enabled) Steer
     \<in> set (snd (triggerCritic ex_enabled ex_exhausted (js ''ctx'') True (Inr ex_needs_work))) \<and>
   startsWith (stop_message ex_enabled) (js ''[Critic'') \<and>
   before_agent_start (stop_message ex_enabled) 8 ex_exhausted = ex_exhausted"
proof -
  have a: "\<not> startsWith (js ''Fix the bug'') (js ''[Critic'')"
    by (simp add: js_def)
  have b: "startsWith (js ''[Critic] is mentioned in my notes'') (js ''[Critic'')"
    by (simp add: js_def)
  have c: "SendUserMessage (stop_message ex_enabled) Steer
     \<in> set (snd (triggerCritic ex_enabled ex_exhausted (js ''ctx'') True (Inr ex_needs_work)))"
    by (simp add: triggerCritic_def triggerCritic_begin_def ex_enabled_def ex_exhausted_def
        initial_state_def)
  from a critic_prompts_never_reset
    [of "js ''Fix the bug''" 8 ex_exhausted ex_enabled ex_exhausted "js ''ctx''" True
       "Inr ex_needs_work"]
  have a': "before_agent_start (js ''Fix the bug'') 8 ex_exhausted =
     ex_exhausted\<lparr>reviewsThisPrompt := 0, lastUserPromptTime := 8, lastVerdictApproved := None\<rparr>"
    by blast
  from b c critic_prompts_never_reset
    [of "js ''[Critic] is mentioned in my notes''" 8 ex_exhausted ex_enabled ex_exhausted
       "js ''ctx''" True "Inr ex_needs_work"]
  have b': "before_agent_start (js ''[Critic] is mentioned in my notes'') 8 ex_exhausted =
      ex_exhausted"
    and c': "startsWith (stop_message ex_enabled) (js ''[Critic'') \<and>
      before_agent_start (stop_message ex_enabled) 8 ex_exhausted = ex_exhausted"
    by blast+
  from a a' b b' c c' show ?thesis by blast
qed

section \<open>The review counter and the cap\<close>

lemma run_snoc: "run fl e (evs @ [ev]) = step fl (run fl e evs) ev"
  by (simp add: run_def)

lemma run_append: "run fl e (evs @ evs') = foldl (step fl) (run fl e evs) evs'"
  by (simp add: run_def)

lemma session_start_max:
  "maxReviewsPerPrompt (session_start fl e st) =
     (case flag_maxReviews fl of
        Some n \<Rightarrow> if n > 0 then n else maxReviewsPerPrompt st
      | None \<Rightarrow> maxReviewsPerPrompt st)"
  by (simp add: session_start_def Let_def split: option.splits)

lemma step_max:
  "maxReviewsPerPrompt (cfg s) = maxReviewsPerPrompt (cfg (boot fl e)) \<Longrightarrow>
   maxReviewsPerPrompt (cfg (step fl s ev)) = maxReviewsPerPrompt (cfg (boot fl e))"
  by (cases ev)
     (auto simp: boot_def session_start_max split: prod.splits bool.splits list.splits option.splits)

lemma run_max: "maxReviewsPerPrompt (cfg (run fl e evs)) = maxReviewsPerPrompt (cfg (boot fl e))"
proof (induction evs rule: rev_induct)
  case Nil
  show ?case by (simp add: run_def)
next
  case (snoc ev evs)
  then show ?case by (simp add: run_snoc step_max)
qed

lemma begin_counter:
  "triggerCritic_begin st rt = (b, rt', effs) \<Longrightarrow>
   reviewsThisPrompt rt \<le> maxReviewsPerPrompt st \<Longrightarrow>
   reviewsThisPrompt rt' \<le> maxReviewsPerPrompt st"
  by (auto simp: triggerCritic_begin_def split: if_splits)

lemma finish_counter:
  "triggerCritic_finish st rt c outcome = (rt', effs) \<Longrightarrow>
   reviewsThisPrompt rt' = reviewsThisPrompt rt"
  by (auto simp: triggerCritic_finish_def split: sum.splits)

lemma boot_max_pos: "0 < maxReviewsPerPrompt (cfg (boot fl e))"
  by (simp add: boot_def session_start_max initial_state_def split: option.splits)

lemma before_agent_start_counter:
  "0 \<le> m \<Longrightarrow> reviewsThisPrompt rt \<le> m \<Longrightarrow>
   reviewsThisPrompt (before_agent_start p now rt) \<le> m"
  by (simp add: before_agent_start_def)

lemma step_counter:
  assumes "maxReviewsPerPrompt (cfg s) = maxReviewsPerPrompt (cfg (boot fl e))"
      and "reviewsThisPrompt (runtime s) \<le> maxReviewsPerPrompt (cfg s)"
  shows "reviewsThisPrompt (runtime (step fl s ev)) \<le> maxReviewsPerPrompt (cfg (step fl s ev))"
proof -
  have m: "maxReviewsPerPrompt (cfg (step fl s ev)) = maxReviewsPerPrompt (cfg s)"
    using step_max[OF assms(1)] assms(1) by simp
  have "reviewsThisPrompt (runtime (step fl s ev)) \<le> maxReviewsPerPrompt (cfg s)"
  proof (cases ev)
    case (EvTrigger c u)
    then show ?thesis using assms(2) begin_counter[of "cfg s" "runtime s"]
      by (cases "triggerCritic_begin (cfg s) (runtime s)") (auto split: bool.splits)
  next
    case (EvReviewerDone outcome)
    then show ?thesis using assms(2) finish_counter[of "cfg s" "runtime s"]
      by (auto split: list.splits prod.splits)
  next
    case (EvBeforeAgentStart p now)
    then show ?thesis using assms boot_max_pos[of fl e]
      by (simp add: before_agent_start_counter)
  qed (use assms(2) in auto)
  with m show ?thesis by simp
qed

lemma run_counter:
  "reviewsThisPrompt (runtime (run fl e evs)) \<le> maxReviewsPerPrompt (cfg (run fl e evs))"
proof (induction evs rule: rev_induct)
  case Nil
  show ?case using boot_max_pos[of fl e]
    by (simp add: run_def) (simp add: boot_def initial_runtime_def)
next
  case (snoc ev evs)
  then show ?case using step_counter[OF run_max] by (simp add: run_snoc)
qed

text \<open>Once the counter has reached the cap, only a genuine prompt changes that.\<close>

lemma step_exhausted:
  assumes "maxReviewsPerPrompt (cfg s) = maxReviewsPerPrompt (cfg (boot fl e))"
      and "reviewsThisPrompt (runtime s) = maxReviewsPerPrompt (cfg s)"
      and "\<not> genuine_prompt ev"
  shows "reviewsThisPrompt (runtime (step fl s ev)) = maxReviewsPerPrompt (cfg (step fl s ev)) \<and>
         filter is_RunReviewer (effects (step fl s ev)) = filter is_RunReviewer (effects s)"
proof -
  have m: "maxReviewsPerPrompt (cfg (step fl s ev)) = maxReviewsPerPrompt (cfg s)"
    using step_max[OF assms(1)] assms(1) by simp
  have "reviewsThisPrompt (runtime (step fl s ev)) = maxReviewsPerPrompt (cfg s) \<and>
         filter is_RunReviewer (effects (step fl s ev)) = filter is_RunReviewer (effects s)"
  proof (cases ev)
    case (EvTrigger c u)
    then show ?thesis using assms(2)
      by (auto simp: triggerCritic_begin_def)
  next
    case (EvReviewerDone outcome)
    then show ?thesis using assms(2)
      by (auto simp: triggerCritic_finish_def split: list.splits sum.splits)
  next
    case (EvBeforeAgentStart p now)
    then show ?thesis using assms by (simp add: before_agent_start_def)
  qed (use assms(2) in auto)
  with m show ?thesis by simp
qed

lemma foldl_exhausted:
  assumes "\<forall>ev \<in> set evs'. \<not> genuine_prompt ev"
      and "maxReviewsPerPrompt (cfg s) = maxReviewsPerPrompt (cfg (boot fl e))"
      and "reviewsThisPrompt (runtime s) = maxReviewsPerPrompt (cfg s)"
  shows "maxReviewsPerPrompt (cfg (foldl (step fl) s evs')) =
           maxReviewsPerPrompt (cfg (boot fl e)) \<and>
         reviewsThisPrompt (runtime (foldl (step fl) s evs')) =
           maxReviewsPerPrompt (cfg (foldl (step fl) s evs')) \<and>
         filter is_RunReviewer (effects (foldl (step fl) s evs')) =
           filter is_RunReviewer (effects s)"
  using assms
proof (induction evs' rule: rev_induct)
  case Nil
  then show ?case by simp
next
  case (snoc ev evs')
  then have ih:
    "maxReviewsPerPrompt (cfg (foldl (step fl) s evs')) = maxReviewsPerPrompt (cfg (boot fl e))"
    "reviewsThisPrompt (runtime (foldl (step fl) s evs')) =
       maxReviewsPerPrompt (cfg (foldl (step fl) s evs'))"
    "filter is_RunReviewer (effects (foldl (step fl) s evs')) = filter is_RunReviewer (effects s)"
    by auto
  from snoc.prems have g: "\<not> genuine_prompt ev" by simp
  show ?case using step_exhausted[OF ih(1) ih(2) g] step_max[OF ih(1)] ih(3) by simp
qed

text \<open>
  Claim C1.  In every session (the extension is loaded, \<^verbatim>\<open>session_start\<close> runs, then any
  events arrive) \<^verbatim>\<open>reviewsThisPrompt\<close> never exceeds \<^verbatim>\<open>maxReviewsPerPrompt\<close>.  Once the two
  are equal, no further event starts a reviewer call and the counter stays at the cap, for as
  long as no \<^verbatim>\<open>before_agent_start\<close> arrives with a genuine prompt; a genuine prompt sets the
  counter to 0.
\<close>

theorem reviews_never_exceed_cap:
  "reviewsThisPrompt (runtime (run fl e evs)) \<le> maxReviewsPerPrompt (cfg (run fl e evs)) \<and>
   (reviewsThisPrompt (runtime (run fl e evs)) = maxReviewsPerPrompt (cfg (run fl e evs)) \<longrightarrow>
    (\<forall>ev \<in> set evs'. \<not> genuine_prompt ev) \<longrightarrow>
      filter is_RunReviewer (effects (run fl e (evs @ evs'))) =
        filter is_RunReviewer (effects (run fl e evs)) \<and>
      reviewsThisPrompt (runtime (run fl e (evs @ evs'))) =
        maxReviewsPerPrompt (cfg (run fl e (evs @ evs')))) \<and>
   (genuine_prompt ev \<longrightarrow> reviewsThisPrompt (runtime (step fl (run fl e evs) ev)) = 0)"
proof (intro conjI impI)
  show "reviewsThisPrompt (runtime (run fl e evs)) \<le> maxReviewsPerPrompt (cfg (run fl e evs))"
    by (rule run_counter)
next
  assume a: "reviewsThisPrompt (runtime (run fl e evs)) = maxReviewsPerPrompt (cfg (run fl e evs))"
     and b: "\<forall>ev \<in> set evs'. \<not> genuine_prompt ev"
  from foldl_exhausted[OF b run_max a]
  show "filter is_RunReviewer (effects (run fl e (evs @ evs'))) =
        filter is_RunReviewer (effects (run fl e evs))"
    and "reviewsThisPrompt (runtime (run fl e (evs @ evs'))) =
        maxReviewsPerPrompt (cfg (run fl e (evs @ evs')))"
    by (simp_all add: run_append)
next
  assume "genuine_prompt ev"
  then show "reviewsThisPrompt (runtime (step fl (run fl e evs) ev)) = 0"
    by (cases ev) (auto simp: before_agent_start_def)
qed

theorem reviews_never_exceed_cap_witness:
  "reviewsThisPrompt (runtime (run ex_flags None ex_request)) =
     maxReviewsPerPrompt (cfg (run ex_flags None ex_request)) \<and>
   list_all (\<lambda>ev. \<not> genuine_prompt ev) ex_after_cap \<and>
   genuine_prompt (EvBeforeAgentStart (js ''Next task'') 11) \<and>
   filter is_RunReviewer (effects (run ex_flags None (ex_request @ ex_after_cap))) =
     filter is_RunReviewer (effects (run ex_flags None ex_request)) \<and>
   reviewsThisPrompt (runtime (run ex_flags None (ex_request @ ex_after_cap))) =
     maxReviewsPerPrompt (cfg (run ex_flags None (ex_request @ ex_after_cap))) \<and>
   reviewsThisPrompt
     (runtime (step ex_flags (run ex_flags None ex_request)
        (EvBeforeAgentStart (js ''Next task'') 11))) = 0"
proof -
  have a: "reviewsThisPrompt (runtime (run ex_flags None ex_request)) =
     maxReviewsPerPrompt (cfg (run ex_flags None ex_request))"
    by (simp add: ev_defs)
  have b: "\<forall>ev \<in> set ex_after_cap. \<not> genuine_prompt ev"
    by (simp add: ex_after_cap_def js_def)
  have c: "genuine_prompt (EvBeforeAgentStart (js ''Next task'') 11)"
    by (simp add: js_def)
  from a b c reviews_never_exceed_cap
    [of ex_flags None ex_request ex_after_cap "EvBeforeAgentStart (js ''Next task'') 11"]
  have d: "filter is_RunReviewer (effects (run ex_flags None (ex_request @ ex_after_cap))) =
     filter is_RunReviewer (effects (run ex_flags None ex_request)) \<and>
   reviewsThisPrompt (runtime (run ex_flags None (ex_request @ ex_after_cap))) =
     maxReviewsPerPrompt (cfg (run ex_flags None (ex_request @ ex_after_cap))) \<and>
   reviewsThisPrompt
     (runtime (step ex_flags (run ex_flags None ex_request)
        (EvBeforeAgentStart (js ''Next task'') 11))) = 0"
    by blast
  from b have b': "list_all (\<lambda>ev. \<not> genuine_prompt ev) ex_after_cap"
    by (simp add: list_all_iff)
  from a b' c d show ?thesis by blast
qed

section \<open>The in-flight flag\<close>

lemma begin_processing:
  "isProcessingCritic rt \<Longrightarrow> triggerCritic_begin st rt = (False, rt, [])"
  by (simp add: triggerCritic_begin_def)

lemma begin_started:
  "triggerCritic_begin st rt = (True, rt', effs) \<Longrightarrow>
     \<not> isProcessingCritic rt \<and> isProcessingCritic rt'"
  by (auto simp: triggerCritic_begin_def split: if_splits)

lemma begin_refused:
  "triggerCritic_begin st rt = (False, rt', effs) \<Longrightarrow> rt' = rt"
  by (auto simp: triggerCritic_begin_def split: if_splits)

lemma finish_clears:
  "triggerCritic_finish st rt c outcome = (rt', effs) \<Longrightarrow> \<not> isProcessingCritic rt'"
  by (auto simp: triggerCritic_finish_def split: sum.splits)

lemma step_inflight:
  assumes "isProcessingCritic (runtime s) \<longleftrightarrow> inflight s \<noteq> []"
      and "length (inflight s) \<le> 1"
  shows "(isProcessingCritic (runtime (step fl s ev)) \<longleftrightarrow> inflight (step fl s ev) \<noteq> []) \<and>
         length (inflight (step fl s ev)) \<le> 1"
proof (cases ev)
  case (EvTrigger c u)
  obtain b rt' effs where b: "triggerCritic_begin (cfg s) (runtime s) = (b, rt', effs)"
    by (cases "triggerCritic_begin (cfg s) (runtime s)") auto
  show ?thesis
  proof (cases b)
    case True
    with b begin_started[of "cfg s" "runtime s" rt' effs] assms EvTrigger show ?thesis by simp
  next
    case False
    with b begin_refused[of "cfg s" "runtime s" rt' effs] assms EvTrigger show ?thesis by simp
  qed
next
  case (EvReviewerDone outcome)
  show ?thesis
  proof (cases "inflight s")
    case Nil
    with assms EvReviewerDone show ?thesis by simp
  next
    case (Cons c rest)
    with assms(2) have "rest = []" by simp
    with Cons EvReviewerDone show ?thesis
      by (auto split: prod.splits dest: finish_clears)
  qed
next
  case (EvBeforeAgentStart p now)
  with assms show ?thesis by (simp add: before_agent_start_def)
qed (use assms in auto)

lemma run_inflight:
  "(isProcessingCritic (runtime (run fl e evs)) \<longleftrightarrow> inflight (run fl e evs) \<noteq> []) \<and>
   length (inflight (run fl e evs)) \<le> 1"
proof (induction evs rule: rev_induct)
  case Nil
  show ?case by (simp add: run_def boot_def initial_runtime_def)
next
  case (snoc ev evs)
  then show ?case using step_inflight[of "run fl e evs" fl ev] by (simp add: run_def)
qed

text \<open>
  Claim C8.  In every session at most one reviewer call is pending, and
  \<^verbatim>\<open>isProcessingCritic\<close> is set exactly while one is.  While the flag is set a trigger is
  dropped: \<^verbatim>\<open>triggerCritic\<close> returns with the runtime state as it was and no effect (no
  reviewer call, no message, nothing queued), so the event leaves the whole system unchanged.
  Every way the reviewer call ends, by a result or by an exception, clears the flag, and a
  whole call of \<^verbatim>\<open>triggerCritic\<close> that found the flag clear leaves it clear.
\<close>

theorem at_most_one_review_in_flight:
  "length (inflight (run fl e evs)) \<le> 1 \<and>
   (isProcessingCritic (runtime (run fl e evs)) \<longleftrightarrow> inflight (run fl e evs) \<noteq> []) \<and>
   (isProcessingCritic rt \<longrightarrow>
      triggerCritic_begin st rt = (False, rt, []) \<and> triggerCritic st rt c u outcome = (rt, [])) \<and>
   (isProcessingCritic (runtime s) \<longrightarrow> step fl s (EvTrigger c u) = s) \<and>
   \<not> isProcessingCritic (fst (triggerCritic_finish st rt c outcome)) \<and>
   (\<not> isProcessingCritic rt \<longrightarrow> \<not> isProcessingCritic (fst (triggerCritic st rt c u outcome)))"
proof (intro conjI impI)
  assume "\<not> isProcessingCritic rt"
  then show "\<not> isProcessingCritic (fst (triggerCritic st rt c u outcome))"
    by (cases "triggerCritic_begin st rt")
       (auto simp: triggerCritic_def dest: begin_refused finish_clears
             split: bool.splits prod.splits)
next
  show "\<not> isProcessingCritic (fst (triggerCritic_finish st rt c outcome))"
    by (cases "triggerCritic_finish st rt c outcome") (auto dest: finish_clears)
qed (use run_inflight in \<open>auto simp: begin_processing triggerCritic_def\<close>)

theorem at_most_one_review_in_flight_witness:
  "isProcessingCritic (runtime (run ex_flags None ex_in_flight)) \<and>
   inflight (run ex_flags None ex_in_flight) \<noteq> [] \<and>
   length (inflight (run ex_flags None ex_in_flight)) \<le> 1 \<and>
   triggerCritic (cfg (run ex_flags None ex_in_flight)) (runtime (run ex_flags None ex_in_flight))
     (js ''again'') True (Inr ex_needs_work) = (runtime (run ex_flags None ex_in_flight), []) \<and>
   step ex_flags (run ex_flags None ex_in_flight) (EvTrigger (js ''again'') True) =
     run ex_flags None ex_in_flight \<and>
   \<not> isProcessingCritic ex_fresh \<and>
   \<not> isProcessingCritic
       (fst (triggerCritic ex_enabled ex_fresh (js ''ctx'') True (Inr ex_needs_work)))"
proof -
  have a: "isProcessingCritic (runtime (run ex_flags None ex_in_flight))"
    by (simp add: ev_defs)
  have b: "\<not> isProcessingCritic ex_fresh"
    by (simp add: ex_fresh_def)
  note t = at_most_one_review_in_flight
    [of ex_flags None ex_in_flight "runtime (run ex_flags None ex_in_flight)"
        "cfg (run ex_flags None ex_in_flight)" "js ''again''" True "Inr ex_needs_work"
        "run ex_flags None ex_in_flight"]
  from a t have c: "inflight (run ex_flags None ex_in_flight) \<noteq> []"
    and d: "length (inflight (run ex_flags None ex_in_flight)) \<le> 1"
    and f: "triggerCritic (cfg (run ex_flags None ex_in_flight))
       (runtime (run ex_flags None ex_in_flight)) (js ''again'') True (Inr ex_needs_work) =
         (runtime (run ex_flags None ex_in_flight), [])"
    and g: "step ex_flags (run ex_flags None ex_in_flight) (EvTrigger (js ''again'') True) =
       run ex_flags None ex_in_flight"
    by blast+
  from b at_most_one_review_in_flight
    [of ex_flags None ex_in_flight ex_fresh ex_enabled "js ''ctx''" True "Inr ex_needs_work"]
  have h: "\<not> isProcessingCritic
       (fst (triggerCritic ex_enabled ex_fresh (js ''ctx'') True (Inr ex_needs_work)))"
    by blast
  from a b c d f g h show ?thesis by blast
qed

section \<open>Refusals at the cap\<close>

lemma refusal_at_cap:
  assumes "enabled st" "\<not> isProcessingCritic rt" "reviewsThisPrompt rt \<ge> maxReviewsPerPrompt st"
  shows "triggerCritic_begin st rt =
           (False, rt, if lastVerdictApproved rt = Some False
                       then [SendUserMessage (stop_message st) Steer] else [])"
  using assms by (simp add: triggerCritic_begin_def)

lemma refusals_repeat:
  assumes "enabled (cfg s)" "\<not> isProcessingCritic (runtime s)"
    "reviewsThisPrompt (runtime s) \<ge> maxReviewsPerPrompt (cfg s)"
    "lastVerdictApproved (runtime s) = Some False"
  shows "foldl (step fl) s (replicate n (EvTrigger c u)) =
           s\<lparr>effects := effects s @ replicate n (SendUserMessage (stop_message (cfg s)) Steer)\<rparr>"
proof (induction n)
  case 0
  show ?case by simp
next
  case (Suc n)
  have "foldl (step fl) s (replicate (Suc n) (EvTrigger c u)) =
        step fl (foldl (step fl) s (replicate n (EvTrigger c u))) (EvTrigger c u)"
    by (simp only: replicate_Suc replicate_append_same[symmetric] foldl_append foldl.simps)
  also have "\<dots> = s\<lparr>effects := effects s @
        replicate (Suc n) (SendUserMessage (stop_message (cfg s)) Steer)\<rparr>"
    using Suc assms by (simp add: refusal_at_cap replicate_append_same)
  finally show ?case .
qed

text \<open>
  Claim C4, as the code has it.  Every refusal of a review because the cap is reached while
  the last recorded verdict is a non-approval sends one stop instruction (delivered as
  \<^verbatim>\<open>steer\<close>) and changes nothing in the runtime state, so the next such refusal sends it
  again: \<open>n\<close> triggers refused in a row within one request send \<open>n\<close> stop instructions.  A
  refusal at the cap with any other last verdict sends nothing.
\<close>

theorem stop_instruction_on_every_refusal:
  "enabled st \<longrightarrow> \<not> isProcessingCritic rt \<longrightarrow> reviewsThisPrompt rt \<ge> maxReviewsPerPrompt st \<longrightarrow>
     triggerCritic st rt c u outcome =
       (rt, if lastVerdictApproved rt = Some False
            then [SendUserMessage (stop_message st) Steer] else []) \<and>
     (lastVerdictApproved rt = Some False \<longrightarrow>
        foldl (step fl) \<lparr>cfg = st, runtime = rt, inflight = [], effects = effs\<rparr>
            (replicate n (EvTrigger c u)) =
          \<lparr>cfg = st, runtime = rt, inflight = [],
           effects = effs @ replicate n (SendUserMessage (stop_message st) Steer)\<rparr>)"
proof (intro impI conjI)
  assume a: "enabled st" "\<not> isProcessingCritic rt"
    "reviewsThisPrompt rt \<ge> maxReviewsPerPrompt st"
  then show "triggerCritic st rt c u outcome =
       (rt, if lastVerdictApproved rt = Some False
            then [SendUserMessage (stop_message st) Steer] else [])"
    by (simp add: triggerCritic_def refusal_at_cap)
  assume b: "lastVerdictApproved rt = Some False"
  show "foldl (step fl) \<lparr>cfg = st, runtime = rt, inflight = [], effects = effs\<rparr>
            (replicate n (EvTrigger c u)) =
          \<lparr>cfg = st, runtime = rt, inflight = [],
           effects = effs @ replicate n (SendUserMessage (stop_message st) Steer)\<rparr>"
    using refusals_repeat[of "\<lparr>cfg = st, runtime = rt, inflight = [], effects = effs\<rparr>" fl n c u]
      a b
    by simp
qed

theorem stop_instruction_on_every_refusal_witness:
  "enabled ex_enabled \<and> \<not> isProcessingCritic ex_exhausted \<and>
   reviewsThisPrompt ex_exhausted \<ge> maxReviewsPerPrompt ex_enabled \<and>
   lastVerdictApproved ex_exhausted = Some False \<and>
   triggerCritic ex_enabled ex_exhausted (js ''ctx'') True (Inr ex_needs_work) =
     (ex_exhausted, if lastVerdictApproved ex_exhausted = Some False
            then [SendUserMessage (stop_message ex_enabled) Steer] else []) \<and>
   foldl (step ex_flags) \<lparr>cfg = ex_enabled, runtime = ex_exhausted, inflight = [], effects = []\<rparr>
       (replicate 2 (EvTrigger (js ''ctx'') True)) =
     \<lparr>cfg = ex_enabled, runtime = ex_exhausted, inflight = [],
      effects = [] @ replicate 2 (SendUserMessage (stop_message ex_enabled) Steer)\<rparr>"
proof -
  have a: "enabled ex_enabled"
    and b: "\<not> isProcessingCritic ex_exhausted"
    and c: "reviewsThisPrompt ex_exhausted \<ge> maxReviewsPerPrompt ex_enabled"
    and d: "lastVerdictApproved ex_exhausted = Some False"
    by (simp_all add: ex_enabled_def ex_exhausted_def initial_state_def)
  from a b c d stop_instruction_on_every_refusal
    [of ex_enabled ex_exhausted "js ''ctx''" True "Inr ex_needs_work" ex_flags "[]" 2]
  have f: "triggerCritic ex_enabled ex_exhausted (js ''ctx'') True (Inr ex_needs_work) =
     (ex_exhausted, if lastVerdictApproved ex_exhausted = Some False
            then [SendUserMessage (stop_message ex_enabled) Steer] else [])"
    and g: "foldl (step ex_flags)
       \<lparr>cfg = ex_enabled, runtime = ex_exhausted, inflight = [], effects = []\<rparr>
       (replicate 2 (EvTrigger (js ''ctx'') True)) =
     \<lparr>cfg = ex_enabled, runtime = ex_exhausted, inflight = [],
      effects = [] @ replicate 2 (SendUserMessage (stop_message ex_enabled) Steer)\<rparr>"
    by blast+
  from a b c d f g show ?thesis by blast
qed

text \<open>
  The claim as stated fails: with \<^verbatim>\<open>--critic-max-reviews 1\<close>, one user request, one review
  that asks for more work and two further triggers (the agent start caused by the stop
  instruction lies between them), the agent is sent the stop instruction twice.
\<close>

theorem stop_instruction_repeated:
  "filter genuine_prompt (ex_request @ ex_after_cap) = [EvBeforeAgentStart (js ''Fix the bug'') 7] \<and>
   filter is_SendUserMessage (effects (run ex_flags None (ex_request @ ex_after_cap))) =
     [SendUserMessage (stop_message (cfg (boot ex_flags None))) Steer,
      SendUserMessage (stop_message (cfg (boot ex_flags None))) Steer]"
  by (simp add: ev_defs)

section \<open>The context filter\<close>

lemma customType_display: "customType (display_message r c) = Some (js ''critic-review'')"
  by (simp add: display_message_def)

text \<open>
  Claim C2.  The \<^verbatim>\<open>context\<close> handler returns no entry whose \<^verbatim>\<open>customType\<close> is
  \<^verbatim>\<open>critic-review\<close>; an entry with that tag is dropped wherever it stands, every other entry
  is kept in its place.  The display message of a review outcome is the custom message with
  that tag whose content is the critique of the outcome, with \<^verbatim>\<open>display\<close> set and the
  outcome and its context string as details; it is dropped by the handler.  And it is always
  sent: for every configuration, whatever the trigger mode, and for every outcome, approved or
  not, with or without error, a review that ran and returned sends exactly this message with
  \<^verbatim>\<open>pi.sendMessage\<close>, once, right after the reviewer call, and sends no other.
\<close>

theorem critic_review_filtered_from_context:
  "(\<forall>m \<in> set (context_handler ms). customType m \<noteq> Some (js ''critic-review'')) \<and>
   (customType m \<noteq> Some (js ''critic-review'') \<longrightarrow>
      context_handler (ms @ [m] @ ms') = context_handler ms @ [m] @ context_handler ms') \<and>
   (customType m = Some (js ''critic-review'') \<longrightarrow>
      context_handler (ms @ [m] @ ms') = context_handler ms @ context_handler ms') \<and>
   context_handler (ms @ [display_message r c] @ ms') = context_handler ms @ context_handler ms' \<and>
   (enabled st \<longrightarrow> \<not> isProcessingCritic rt \<longrightarrow> reviewsThisPrompt rt < maxReviewsPerPrompt st \<longrightarrow>
      SendMessage (display_message r c) \<in> set (snd (triggerCritic st rt c u (Inr r)))) \<and>
   display_message r c = CustomMessage (js ''critic-review'') (critique r) True (Some (r, c)) \<and>
   context_handler
       (ms @ [CustomMessage (js ''critic-review'') (critique r) True (Some (r, c))] @ ms') =
     context_handler ms @ context_handler ms' \<and>
   (enabled st \<longrightarrow> \<not> isProcessingCritic rt \<longrightarrow> reviewsThisPrompt rt < maxReviewsPerPrompt st \<longrightarrow>
      take 2 (snd (triggerCritic st rt c u (Inr r))) =
        [RunReviewer c u,
         SendMessage (CustomMessage (js ''critic-review'') (critique r) True (Some (r, c)))] \<and>
      filter is_SendMessage (snd (triggerCritic st rt c u (Inr r))) =
        [SendMessage (CustomMessage (js ''critic-review'') (critique r) True (Some (r, c)))])"
  by (auto simp: context_handler_def display_message_def triggerCritic_def
      triggerCritic_begin_def triggerCritic_finish_def)

theorem critic_review_filtered_from_context_witness:
  "display_message ex_needs_work (js ''ctx'') \<in> set ex_conversation \<and>
   display_message ex_needs_work (js ''ctx'') \<notin> set (context_handler ex_conversation) \<and>
   customType (AssistantMessage [TextContent (js ''Done.'')]) \<noteq> Some (js ''critic-review'') \<and>
   context_handler ([UserMessage (ContentString (js ''Fix the bug''))] @
       [AssistantMessage [TextContent (js ''Done.'')]] @ []) =
     context_handler [UserMessage (ContentString (js ''Fix the bug''))] @
       [AssistantMessage [TextContent (js ''Done.'')]] @ context_handler [] \<and>
   enabled ex_enabled \<and> \<not> isProcessingCritic ex_fresh \<and>
   reviewsThisPrompt ex_fresh < maxReviewsPerPrompt ex_enabled \<and>
   SendMessage (display_message ex_needs_work (js ''ctx''))
     \<in> set (snd (triggerCritic ex_enabled ex_fresh (js ''ctx'') True (Inr ex_needs_work))) \<and>
   critique ex_needs_work = js ''Handle the null case.'' \<and>
   take 2 (snd (triggerCritic ex_enabled ex_fresh (js ''ctx'') True (Inr ex_needs_work))) =
     [RunReviewer (js ''ctx'') True,
      SendMessage (CustomMessage (js ''critic-review'') (critique ex_needs_work) True
        (Some (ex_needs_work, js ''ctx'')))] \<and>
   filter is_SendMessage
       (snd (triggerCritic ex_enabled ex_fresh (js ''ctx'') True (Inr ex_needs_work))) =
     [SendMessage (CustomMessage (js ''critic-review'') (critique ex_needs_work) True
        (Some (ex_needs_work, js ''ctx'')))] \<and>
   context_handler
       ([UserMessage (ContentString (js ''Fix the bug''))] @
        [CustomMessage (js ''critic-review'') (critique ex_needs_work) True
           (Some (ex_needs_work, js ''ctx''))] @
        [AssistantMessage [TextContent (js ''Done.'')]]) =
     context_handler [UserMessage (ContentString (js ''Fix the bug''))] @
     context_handler [AssistantMessage [TextContent (js ''Done.'')]]"
proof -
  have a: "display_message ex_needs_work (js ''ctx'') \<in> set ex_conversation"
    by (simp add: ex_conversation_def)
  have b: "customType (AssistantMessage [TextContent (js ''Done.'')]) \<noteq> Some (js ''critic-review'')"
    by simp
  have c: "enabled ex_enabled" and d: "\<not> isProcessingCritic ex_fresh"
    and f: "reviewsThisPrompt ex_fresh < maxReviewsPerPrompt ex_enabled"
    by (simp_all add: ex_enabled_def ex_fresh_def initial_state_def)
  have k: "critique ex_needs_work = js ''Handle the null case.''"
    by (simp add: ex_needs_work_def)
  note t = critic_review_filtered_from_context
    [where ms = ex_conversation and r = ex_needs_work and c = "js ''ctx''"]
  from t customType_display[of ex_needs_work "js ''ctx''"]
  have g: "display_message ex_needs_work (js ''ctx'') \<notin> set (context_handler ex_conversation)"
    by blast
  from critic_review_filtered_from_context
    [where ms = "[UserMessage (ContentString (js ''Fix the bug''))]"
       and m = "AssistantMessage [TextContent (js ''Done.'')]" and ms' = "[]"
       and r = ex_needs_work and c = "js ''ctx''" and st = ex_enabled and rt = ex_fresh
       and u = True] b c d f
  have h: "context_handler ([UserMessage (ContentString (js ''Fix the bug''))] @
       [AssistantMessage [TextContent (js ''Done.'')]] @ []) =
     context_handler [UserMessage (ContentString (js ''Fix the bug''))] @
       [AssistantMessage [TextContent (js ''Done.'')]] @ context_handler []"
    and i: "SendMessage (display_message ex_needs_work (js ''ctx''))
     \<in> set (snd (triggerCritic ex_enabled ex_fresh (js ''ctx'') True (Inr ex_needs_work)))"
    and l: "take 2 (snd (triggerCritic ex_enabled ex_fresh (js ''ctx'') True (Inr ex_needs_work))) =
     [RunReviewer (js ''ctx'') True,
      SendMessage (CustomMessage (js ''critic-review'') (critique ex_needs_work) True
        (Some (ex_needs_work, js ''ctx'')))]"
    and m: "filter is_SendMessage
       (snd (triggerCritic ex_enabled ex_fresh (js ''ctx'') True (Inr ex_needs_work))) =
     [SendMessage (CustomMessage (js ''critic-review'') (critique ex_needs_work) True
        (Some (ex_needs_work, js ''ctx'')))]"
    by blast+
  from critic_review_filtered_from_context
    [where ms = "[UserMessage (ContentString (js ''Fix the bug''))]"
       and ms' = "[AssistantMessage [TextContent (js ''Done.'')]]"
       and r = ex_needs_work and c = "js ''ctx''"]
  have n: "context_handler
       ([UserMessage (ContentString (js ''Fix the bug''))] @
        [CustomMessage (js ''critic-review'') (critique ex_needs_work) True
           (Some (ex_needs_work, js ''ctx''))] @
        [AssistantMessage [TextContent (js ''Done.'')]]) =
     context_handler [UserMessage (ContentString (js ''Fix the bug''))] @
     context_handler [AssistantMessage [TextContent (js ''Done.'')]]"
    by blast
  from a b c d f g h i k l m n show ?thesis by blast
qed

section \<open>The context curator in \<^verbatim>\<open>results_only\<close> mode\<close>

lemma slice_from_end_1: "xs \<noteq> [] \<Longrightarrow> slice_from_end (Suc 0) xs = [last xs]"
  by (induction xs rule: rev_induct) (simp_all add: slice_from_end_def)

lemma slice_from_end_Nil: "slice_from_end n [] = []"
  by (simp add: slice_from_end_def)

text \<open>
  Claim C9, as the code has it.  In \<^verbatim>\<open>results_only\<close> mode, for every non-empty list of
  conversation entries and whatever \<^verbatim>\<open>maxMessages\<close> is, \<^verbatim>\<open>formatRecentContext\<close> processes
  exactly one entry, the last, and returns what that entry alone contributes; for the empty
  list it processes no entry and returns the empty string.
\<close>

theorem results_only_emits_last_entry:
  "(messages \<noteq> [] \<longrightarrow>
      messagesToProcess messages ResultsOnly maxMessages = [last messages] \<and>
      formatRecentContext messages ResultsOnly maxMessages =
        join [10, 10] (format_message ResultsOnly (last messages))) \<and>
   messagesToProcess [] ResultsOnly maxMessages = [] \<and>
   formatRecentContext [] ResultsOnly maxMessages = []"
  by (simp add: formatRecentContext_def messagesToProcess_def slice_from_end_1 slice_from_end_Nil)

theorem results_only_emits_last_entry_witness:
  "ex_history \<noteq> [] \<and>
   messagesToProcess ex_history ResultsOnly 10 = [last ex_history] \<and>
   formatRecentContext ex_history ResultsOnly 10 =
     join [10, 10] (format_message ResultsOnly (last ex_history))"
proof -
  have a: "ex_history \<noteq> []"
    by (simp add: ex_history_def)
  from a results_only_emits_last_entry[of ex_history 10]
  have b: "messagesToProcess ex_history ResultsOnly 10 = [last ex_history] \<and>
     formatRecentContext ex_history ResultsOnly 10 =
       join [10, 10] (format_message ResultsOnly (last ex_history))"
    by blast
  from a b show ?thesis by blast
qed

text \<open>
  The claim as stated fails on the empty list: there no entry is processed and nothing is
  emitted.
\<close>

theorem results_only_empty_slice:
  "length (messagesToProcess [] ResultsOnly 10) = 0 \<and> formatRecentContext [] ResultsOnly 10 = []"
  by (simp add: formatRecentContext_def messagesToProcess_def slice_from_end_def)

section \<open>The verdict parser\<close>

subsection \<open>Literals and their occurrences\<close>

lemma lit_prefix_iff:
  "lit_prefix p s = Some r \<longleftrightarrow>
     length p \<le> length s \<and> map canonicalize (take (length p) s) = map canonicalize p \<and>
     r = drop (length p) s"
  by (induction p s rule: lit_prefix.induct) auto

lemma lit_prefix_None_iff:
  "lit_prefix p s = None \<longleftrightarrow>
     \<not> (length p \<le> length s \<and> map canonicalize (take (length p) s) = map canonicalize p)"
  using lit_prefix_iff[of p s] by (cases "lit_prefix p s") auto

lemma occurs_iff:
  "pat \<noteq> [] \<Longrightarrow> occurs pat s k \<longleftrightarrow>
     k + length pat \<le> length s \<and>
     map canonicalize (take (length pat) (drop k s)) = map canonicalize pat"
  by (cases pat) (auto simp: occurs_def lit_prefix_None_iff)

lemma occurs_append_left:
  "pat \<noteq> [] \<Longrightarrow> k + length pat \<le> length a \<Longrightarrow> occurs pat (a @ b) k \<longleftrightarrow> occurs pat a k"
  by (simp add: occurs_iff)

lemma occurs_append_right:
  "pat \<noteq> [] \<Longrightarrow> length a \<le> k \<Longrightarrow> occurs pat (a @ b) k \<longleftrightarrow> occurs pat b (k - length a)"
  by (auto simp: occurs_iff)

lemma occurs_take: "pat \<noteq> [] \<Longrightarrow> occurs pat (take n s) k \<Longrightarrow> occurs pat s k"
proof -
  assume p: "pat \<noteq> []" and o: "occurs pat (take n s) k"
  then have le: "k + length pat \<le> min (length s) n"
    and eq: "map canonicalize (take (length pat) (drop k (take n s))) = map canonicalize pat"
    by (simp_all add: occurs_iff)
  have "take (length pat) (drop k (take n s)) = take (length pat) (drop k s)"
    using le by (simp add: drop_take min_def split: if_splits)
  with le eq p show ?thesis by (simp add: occurs_iff)
qed

lemma occurs_drop: "pat \<noteq> [] \<Longrightarrow> occurs pat (drop a s) k \<longleftrightarrow> occurs pat s (k + a)"
proof -
  assume p: "pat \<noteq> []"
  then have "0 < length pat" by simp
  then have "k + length pat \<le> length s - a \<longleftrightarrow> k + a + length pat \<le> length s"
    by arith
  with p show ?thesis by (simp add: occurs_iff add.commute)
qed

subsection \<open>The matcher\<close>

lemma rx_match_Lit:
  "rx_match (Lit p # rs) s = Some x \<longleftrightarrow>
     (\<exists>rest. lit_prefix p s = Some rest \<and> rx_match rs rest = Some x)"
  by (simp split: option.splits)

lemma rx_match_Star_elim:
  "rx_match (Star k # rs) s = Some x \<Longrightarrow> \<exists>j. rx_match rs (drop j s) = Some x"
proof (induction s)
  case Nil
  then show ?case by simp
next
  case (Cons c cs)
  show ?case
  proof (cases "in_class k c \<and> rx_match (Star k # rs) cs \<noteq> None")
    case True
    with Cons.prems have "rx_match (Star k # rs) cs = Some x" by auto
    with Cons.IH obtain j where "rx_match rs (drop j cs) = Some x" by blast
    then have "rx_match rs (drop (Suc j) (c # cs)) = Some x" by simp
    then show ?thesis by blast
  next
    case False
    with Cons.prems have "rx_match rs (drop 0 (c # cs)) = Some x"
      by (auto split: if_splits option.splits)
    then show ?thesis by blast
  qed
qed

lemma rx_match_Group_elim:
  "rx_match (Group as # rs) s = Some (g, r) \<Longrightarrow>
     \<exists>a rest g'. a \<in> set as \<and> lit_prefix a s = Some rest \<and> rx_match rs rest = Some (g', r) \<and>
        g = take (length a) s"
proof (induction as)
  case Nil
  then show ?case by simp
next
  case (Cons a as)
  show ?case
  proof (cases "case lit_prefix a s of None \<Rightarrow> None | Some rest \<Rightarrow> rx_match rs rest")
    case None
    with Cons.prems have "rx_match (Group as # rs) s = Some (g, r)" by simp
    with Cons.IH show ?thesis by auto
  next
    case (Some gr)
    with Cons.prems show ?thesis by (auto split: option.splits prod.splits)
  qed
qed

lemma lit_prefix_drop: "lit_prefix p s = Some rest \<Longrightarrow> rest = drop (length p) s"
  by (simp add: lit_prefix_iff)

lemma verdict_match_shape:
  assumes "rx_match VERDICT_RX z = Some (g, r)"
  shows "occurs (js ''<critic_verdict>'') z 0 \<and>
         (\<exists>j \<ge> length (js ''<critic_verdict>''). occurs (js ''</critic_verdict>'') z j) \<and>
         toUpperCase g \<in> {js ''APPROVED'', js ''NEEDS_WORK'', js ''BLOCKED''}"
proof -
  let ?O = "js ''<critic_verdict>''" and ?C = "js ''</critic_verdict>''"
  from assms obtain t1 where t1: "lit_prefix ?O z = Some t1"
    and m1: "rx_match [Star Space, Lit (js ''status:''), Star Space,
      Group [js ''APPROVED'', js ''NEEDS_WORK'', js ''BLOCKED''], Star Space, Lit ?C] t1 = Some (g, r)"
    unfolding VERDICT_RX_def rx_match_Lit by blast
  from rx_match_Star_elim[OF m1] obtain j1 where
    "rx_match [Lit (js ''status:''), Star Space,
      Group [js ''APPROVED'', js ''NEEDS_WORK'', js ''BLOCKED''], Star Space, Lit ?C] (drop j1 t1) = Some (g, r)"
    by blast
  then obtain t2 where t2: "lit_prefix (js ''status:'') (drop j1 t1) = Some t2"
    and m2: "rx_match [Star Space,
      Group [js ''APPROVED'', js ''NEEDS_WORK'', js ''BLOCKED''], Star Space, Lit ?C] t2 = Some (g, r)"
    unfolding rx_match_Lit by blast
  from rx_match_Star_elim[OF m2] obtain j2 where
    "rx_match [Group [js ''APPROVED'', js ''NEEDS_WORK'', js ''BLOCKED''], Star Space, Lit ?C]
       (drop j2 t2) = Some (g, r)"
    by blast
  from rx_match_Group_elim[OF this] obtain a t3 g' where
    a: "a \<in> set [js ''APPROVED'', js ''NEEDS_WORK'', js ''BLOCKED'']"
    and t3: "lit_prefix a (drop j2 t2) = Some t3"
    and m3: "rx_match [Star Space, Lit ?C] t3 = Some (g', r)"
    and g: "g = take (length a) (drop j2 t2)"
    by blast
  from rx_match_Star_elim[OF m3] obtain j3 where
    "rx_match [Lit ?C] (drop j3 t3) = Some (g', r)" by blast
  then have c: "lit_prefix ?C (drop j3 t3) \<noteq> None"
    unfolding rx_match_Lit by auto
  have t1': "t1 = drop (length ?O) z" and t2': "t2 = drop (length (js ''status:'')) (drop j1 t1)"
    and t3': "t3 = drop (length a) (drop j2 t2)"
    using t1 t2 t3 by (simp_all only: lit_prefix_drop)
  have "drop j3 t3 = drop (j3 + length a + j2 + length (js ''status:'') + j1 + length ?O) z"
    unfolding t3' t2' t1' by (simp add: ac_simps)
  with c have "occurs ?C z (j3 + length a + j2 + length (js ''status:'') + j1 + length ?O)"
    by (simp add: occurs_def)
  then have 2: "\<exists>j \<ge> length ?O. occurs ?C z j"
    by (meson le_add2)
  from t1 have 1: "occurs ?O z 0" by (simp add: occurs_def)
  from t3 g have "map canonicalize g = map canonicalize a"
    by (simp add: lit_prefix_iff)
  with a have 3: "toUpperCase g \<in> {js ''APPROVED'', js ''NEEDS_WORK'', js ''BLOCKED''}"
    by (auto simp: toUpperCase_def js_def canonicalize_def)
  from 1 2 3 show ?thesis by blast
qed

subsection \<open>The greedy star before the closing tag\<close>

lemma js_nonempty: "js (c # cs) \<noteq> []"
  by (simp add: js_def)

lemma star_any_finds:
  "occurs C t j \<Longrightarrow> rx_match [Star AnyChar, Lit C] t \<noteq> None"
proof (induction t arbitrary: j)
  case Nil
  then show ?case by (simp add: occurs_def split: option.splits)
next
  case (Cons c cs)
  show ?case
  proof (cases j)
    case 0
    with Cons.prems have "lit_prefix C (c # cs) \<noteq> None" by (simp add: occurs_def)
    then show ?thesis by (auto split: option.splits)
  next
    case (Suc j')
    with Cons.prems have "occurs C cs j'" by (simp add: occurs_def)
    with Cons.IH have "rx_match [Star AnyChar, Lit C] cs \<noteq> None" by blast
    then show ?thesis by (auto split: option.splits)
  qed
qed

lemma star_any_last:
  assumes "C \<noteq> []"
  shows "rx_match [Star AnyChar, Lit C] t = Some (g, r) \<Longrightarrow>
     (\<exists>j. occurs C t j \<and> r = drop (j + length C) t) \<and> (\<forall>j'. \<not> occurs C r j')"
proof (induction t)
  case Nil
  with assms show ?case by (cases C) (auto split: option.splits)
next
  case (Cons c cs)
  show ?case
  proof (cases "rx_match [Star AnyChar, Lit C] cs")
    case (Some x)
    with Cons.prems have m: "rx_match [Star AnyChar, Lit C] cs = Some (g, r)" by simp
    with Cons.IH obtain j where j: "occurs C cs j" "r = drop (j + length C) cs"
      and n: "\<forall>j'. \<not> occurs C r j'" by blast
    from j have "occurs C (c # cs) (Suc j)" "r = drop (Suc j + length C) (c # cs)"
      by (simp_all add: occurs_def)
    with n show ?thesis by blast
  next
    case None
    with Cons.prems have l: "lit_prefix C (c # cs) = Some r"
      by (auto split: option.splits)
    then have 1: "occurs C (c # cs) 0" "r = drop (0 + length C) (c # cs)"
      by (simp_all add: occurs_def lit_prefix_drop)
    from None star_any_finds have no: "\<And>j. \<not> occurs C cs j" by blast
    from assms 1(2) have "r = drop (length C - 1) cs" by (cases C) simp_all
    then have "\<And>j'. occurs C r j' = occurs C cs (j' + (length C - 1))"
      using assms by (simp add: occurs_drop)
    with no have "\<forall>j'. \<not> occurs C r j'" by simp
    with 1 show ?thesis by blast
  qed
qed

lemma strip_match_iff:
  "rx_match STRIP_RX z = Some x \<longleftrightarrow>
     (\<exists>t. lit_prefix (js ''<critic_verdict>'') z = Some t \<and>
          rx_match [Star AnyChar, Lit (js ''</critic_verdict>'')] t = Some x)"
  unfolding STRIP_RX_def by (rule rx_match_Lit)

lemma strip_match_exists:
  assumes "occurs (js ''<critic_verdict>'') z 0"
      and "length (js ''<critic_verdict>'') \<le> j" and "occurs (js ''</critic_verdict>'') z j"
  shows "rx_match STRIP_RX z \<noteq> None"
proof -
  from assms(1) obtain t where t: "lit_prefix (js ''<critic_verdict>'') z = Some t"
    by (auto simp: occurs_def)
  then have "t = drop (length (js ''<critic_verdict>'')) z" by (rule lit_prefix_drop)
  with assms(2,3) have "occurs (js ''</critic_verdict>'') t (j - length (js ''<critic_verdict>''))"
    by (simp add: occurs_drop js_nonempty)
  from star_any_finds[OF this] obtain x where
    "rx_match [Star AnyChar, Lit (js ''</critic_verdict>'')] t = Some x" by auto
  with t show ?thesis using strip_match_iff by auto
qed

lemma strip_match_last:
  assumes "rx_match STRIP_RX m = Some (g, r)"
  shows "\<exists>j. length (js ''<critic_verdict>'') \<le> j \<and> occurs (js ''</critic_verdict>'') m j \<and>
             (\<forall>j'. \<not> occurs (js ''</critic_verdict>'') r j')"
proof -
  from assms obtain t where t: "lit_prefix (js ''<critic_verdict>'') m = Some t"
    and m: "rx_match [Star AnyChar, Lit (js ''</critic_verdict>'')] t = Some (g, r)"
    using strip_match_iff by blast
  from star_any_last[OF _ m] obtain j where j: "occurs (js ''</critic_verdict>'') t j"
    and n: "\<forall>j'. \<not> occurs (js ''</critic_verdict>'') r j'"
    by (auto simp: js_nonempty)
  from t have "t = drop (length (js ''<critic_verdict>'')) m" by (rule lit_prefix_drop)
  with j have "occurs (js ''</critic_verdict>'') m (j + length (js ''<critic_verdict>''))"
    by (simp add: occurs_drop js_nonempty)
  with n show ?thesis by (meson le_add2)
qed

subsection \<open>The leftmost match\<close>

lemma rx_exec_Some:
  "rx_exec rx s = Some (p, g, r) \<Longrightarrow>
     (\<exists>m. s = p @ m \<and> rx_match rx m = Some (g, r)) \<and>
     (\<forall>k < length p. rx_match rx (drop k s) = None)"
proof (induction s arbitrary: p)
  case Nil
  then show ?case by (auto split: option.splits)
next
  case (Cons c cs)
  show ?case
  proof (cases "rx_match rx (c # cs)")
    case (Some x)
    with Cons.prems show ?thesis by auto
  next
    case None
    with Cons.prems obtain p' where p': "rx_exec rx cs = Some (p', g, r)" and p: "p = c # p'"
      by (auto split: option.splits)
    from Cons.IH[OF p'] obtain m where m: "cs = p' @ m" "rx_match rx m = Some (g, r)"
      and n: "\<forall>k < length p'. rx_match rx (drop k cs) = None" by blast
    have "\<forall>k < length p. rx_match rx (drop k (c # cs)) = None"
    proof (intro allI impI)
      fix k assume "k < length p"
      then show "rx_match rx (drop k (c # cs)) = None"
        using None n p by (cases k) auto
    qed
    with m p show ?thesis by auto
  qed
qed

lemma rx_exec_None:
  "rx_exec rx s = None \<Longrightarrow> rx_match rx (drop k s) = None"
proof (induction s arbitrary: k)
  case Nil
  then show ?case by (auto split: option.splits)
next
  case (Cons c cs)
  then have a: "rx_match rx (c # cs) = None" and b: "rx_exec rx cs = None"
    by (auto split: option.splits)
  show ?case using a Cons.IH[OF b] by (cases k) auto
qed

subsection \<open>No marker is left after the replacement\<close>

lemma strip_leaves_no_marker:
  assumes "rx_exec STRIP_RX s = Some (p, g, r)"
      and "occurs (js ''<critic_verdict>'') (p @ r) q"
      and "q + length (js ''<critic_verdict>'') \<le> j"
      and "occurs (js ''</critic_verdict>'') (p @ r) j"
  shows False
proof -
  let ?O = "js ''<critic_verdict>''" and ?C = "js ''</critic_verdict>''"
  from rx_exec_Some[OF assms(1)] obtain m where s: "s = p @ m"
    and m: "rx_match STRIP_RX m = Some (g, r)"
    and left: "\<forall>k < length p. rx_match STRIP_RX (drop k s) = None" by blast
  from strip_match_last[OF m] obtain j0 where j0: "length ?O \<le> j0" "occurs ?C m j0"
    and no: "\<forall>j'. \<not> occurs ?C r j'" by blast
  show False
  proof (cases "length p \<le> j")
    case True
    with assms(4) have "occurs ?C r (j - length p)"
      by (simp add: occurs_append_right js_nonempty)
    with no show False by blast
  next
    case False
    with assms(3) have q: "q + length ?O \<le> length p" and ql: "q < length p"
      by simp_all
    from assms(2) q have "occurs ?O p q" by (simp add: occurs_append_left js_nonempty)
    with q s have "occurs ?O s q" by (simp add: occurs_append_left js_nonempty)
    then have 1: "occurs ?O (drop q s) 0" by (simp add: occurs_drop js_nonempty)
    from j0(2) s have c: "occurs ?C s (j0 + length p)"
      by (simp add: occurs_append_right js_nonempty)
    from ql have e: "(j0 + length p - q) + q = j0 + length p" by arith
    have "occurs ?C (drop q s) (j0 + length p - q) \<longleftrightarrow>
          occurs ?C s ((j0 + length p - q) + q)"
      by (rule occurs_drop[OF js_nonempty])
    with c have 2: "occurs ?C (drop q s) (j0 + length p - q)"
      unfolding e by blast
    from j0(1) q have 3: "length ?O \<le> j0 + length p - q" by arith
    from left ql have "rx_match STRIP_RX (drop q s) = None" by simp
    with strip_match_exists[OF 1 3 2] show False by simp
  qed
qed

lemma trim_shape: "\<exists>a b. trim x = take b (drop a x)"
proof -
  have "dropWhile is_space x = drop (length (takeWhile is_space x)) x"
    by (rule dropWhile_eq_drop)
  moreover have "\<And>y. rev (dropWhile is_space (rev y)) =
      take (length y - length (takeWhile is_space (rev y))) y"
    by (simp add: dropWhile_eq_drop rev_drop)
  ultimately show ?thesis unfolding trim_def by metis
qed

lemma verdict_in_substring:
  assumes "rx_match VERDICT_RX (drop k (take b (drop a x))) = Some (g, r)"
  shows "\<exists>q j. occurs (js ''<critic_verdict>'') x q \<and> q + length (js ''<critic_verdict>'') \<le> j \<and>
           occurs (js ''</critic_verdict>'') x j"
proof -
  let ?O = "js ''<critic_verdict>''" and ?C = "js ''</critic_verdict>''"
  have m: "drop k (take b (drop a x)) = take (b - k) (drop (k + a) x)"
    by (simp add: drop_take)
  from verdict_match_shape[OF assms] obtain j where 1: "occurs ?O (take (b - k) (drop (k + a) x)) 0"
    and 2: "length ?O \<le> j" "occurs ?C (take (b - k) (drop (k + a) x)) j"
    unfolding m by blast
  from occurs_take[OF js_nonempty 1] have o: "occurs ?O x (k + a)"
    by (simp add: occurs_drop js_nonempty)
  from occurs_take[OF js_nonempty 2(2)] have c: "occurs ?C x (j + (k + a))"
    by (simp add: occurs_drop js_nonempty)
  from 2(1) have "k + a + length ?O \<le> j + (k + a)" by simp
  with o c show ?thesis by blast
qed

lemma no_verdict_after_strip:
  assumes "rx_exec STRIP_RX s = Some (p, g, r)"
  shows "rx_exec VERDICT_RX (trim (p @ r)) = None"
proof (rule ccontr)
  assume "rx_exec VERDICT_RX (trim (p @ r)) \<noteq> None"
  then obtain p' g' r' where "rx_exec VERDICT_RX (trim (p @ r)) = Some (p', g', r')" by auto
  from rx_exec_Some[OF this] obtain m where t: "trim (p @ r) = p' @ m"
    and v: "rx_match VERDICT_RX m = Some (g', r')" by blast
  from trim_shape obtain a b where ab: "trim (p @ r) = take b (drop a (p @ r))" by blast
  from t have "m = drop (length p') (trim (p @ r))" by simp
  with v ab have "rx_match VERDICT_RX (drop (length p') (take b (drop a (p @ r)))) = Some (g', r')"
    by simp
  from verdict_in_substring[OF this] obtain q j where
    "occurs (js ''<critic_verdict>'') (p @ r) q" "q + length (js ''<critic_verdict>'') \<le> j"
    "occurs (js ''</critic_verdict>'') (p @ r) j" by blast
  with strip_leaves_no_marker[OF assms] show False by blast
qed

lemma verdict_implies_strip:
  assumes "rx_exec VERDICT_RX s = Some (p, g, r)"
  shows "rx_exec STRIP_RX s \<noteq> None"
proof
  assume n: "rx_exec STRIP_RX s = None"
  from rx_exec_Some[OF assms] obtain m where s: "s = p @ m"
    and v: "rx_match VERDICT_RX m = Some (g, r)" by blast
  from verdict_match_shape[OF v] obtain j where "occurs (js ''<critic_verdict>'') m 0"
    "length (js ''<critic_verdict>'') \<le> j" "occurs (js ''</critic_verdict>'') m j" by blast
  then have "rx_match STRIP_RX m \<noteq> None" by (rule strip_match_exists)
  moreover from s have "m = drop (length p) s" by simp
  ultimately show False using rx_exec_None[OF n] by simp
qed

lemma parseVerdict_marker:
  assumes "js_match text VERDICT_RX = Some g"
  shows "v_status (parseVerdict text) \<in> {js ''APPROVED'', js ''NEEDS_WORK'', js ''BLOCKED''}"
    and "v_approved (parseVerdict text) \<longleftrightarrow> v_status (parseVerdict text) = js ''APPROVED''"
    and "js_match (v_critique (parseVerdict text)) VERDICT_RX = None"
proof -
  from assms obtain p r where e: "rx_exec VERDICT_RX text = Some (p, g, r)"
    by (auto simp: js_match_def split: option.splits)
  from rx_exec_Some[OF e] obtain m where "rx_match VERDICT_RX m = Some (g, r)" by blast
  from verdict_match_shape[OF this]
  have st: "toUpperCase g \<in> {js ''APPROVED'', js ''NEEDS_WORK'', js ''BLOCKED''}" by blast
  with assms show "v_status (parseVerdict text) \<in> {js ''APPROVED'', js ''NEEDS_WORK'', js ''BLOCKED''}"
    by (simp add: parseVerdict_def)
  from assms show "v_approved (parseVerdict text) \<longleftrightarrow> v_status (parseVerdict text) = js ''APPROVED''"
    by (simp add: parseVerdict_def)
  from verdict_implies_strip[OF e] obtain p' g' r' where
    s: "rx_exec STRIP_RX text = Some (p', g', r')" by auto
  from no_verdict_after_strip[OF s] assms s
  show "js_match (v_critique (parseVerdict text)) VERDICT_RX = None"
    by (simp add: parseVerdict_def js_match_def js_replace_empty_def)
qed

lemma strip_span:
  assumes "rx_exec STRIP_RX s = Some (p, g, r)"
  shows "\<exists>m. s = p @ m @ r \<and> occurs (js ''<critic_verdict>'') m 0 \<and>
             occurs (js ''</critic_verdict>'') m (length m - length (js ''</critic_verdict>''))"
proof -
  let ?O = "js ''<critic_verdict>''" and ?C = "js ''</critic_verdict>''"
  from rx_exec_Some[OF assms] obtain mm where s: "s = p @ mm"
    and m: "rx_match STRIP_RX mm = Some (g, r)" by blast
  from m obtain t where t: "lit_prefix ?O mm = Some t"
    and st: "rx_match [Star AnyChar, Lit ?C] t = Some (g, r)"
    using strip_match_iff by blast
  from star_any_last[OF js_nonempty st] obtain j where j: "occurs ?C t j"
    and r: "r = drop (j + length ?C) t" by blast
  from t have t': "t = drop (length ?O) mm" and le: "length ?O \<le> length mm"
    by (simp_all add: lit_prefix_iff)
  define n where "n = j + length ?O + length ?C"
  from j have "j + length ?C \<le> length t" by (simp add: occurs_iff js_nonempty)
  with t' le have n: "n \<le> length mm" by (simp add: n_def)
  from r t' have r': "r = drop n mm" by (simp add: n_def ac_simps)
  define m' where "m' = take n mm"
  have mm: "mm = m' @ r" by (simp add: m'_def r')
  from n have len: "length m' = n" by (simp add: m'_def)
  from t have "occurs ?O mm 0" by (simp add: occurs_def)
  then have 1: "occurs ?O m' 0"
    unfolding mm using len by (simp add: occurs_append_left js_nonempty n_def)
  from j t' have "occurs ?C mm (j + length ?O)" by (simp add: occurs_drop js_nonempty)
  then have "occurs ?C m' (j + length ?O)"
    unfolding mm using len by (simp add: occurs_append_left js_nonempty n_def)
  moreover have "length m' - length ?C = j + length ?O" by (simp add: len n_def)
  ultimately have 2: "occurs ?C m' (length m' - length ?C)" by simp
  from s mm 1 2 show ?thesis by blast
qed

lemmas rx_defs =
  js_match_def js_replace_empty_def VERDICT_RX_def STRIP_RX_def js_def canonicalize_def
  is_space_def toUpperCase_def trim_def parseVerdict_def ex_review_def ex_plain_def

subsection \<open>A well-formed verdict block is found and read\<close>

lemma lit_prefix_same:
  "toUpperCase a = toUpperCase p \<Longrightarrow> lit_prefix p (a @ t) = Some t"
proof -
  assume e: "toUpperCase a = toUpperCase p"
  then have "length a = length p" unfolding toUpperCase_def by (rule map_eq_imp_length_eq)
  with e show ?thesis by (simp add: lit_prefix_iff toUpperCase_def)
qed

lemma star_skip:
  "list_all (in_class k) ws \<Longrightarrow> rx_match (Star k # rs) t = Some x \<Longrightarrow>
   rx_match (Star k # rs) (ws @ t) = Some x"
  by (induction ws) auto

lemma star_enter:
  "rx_match rs t = Some x \<Longrightarrow> t = [] \<or> \<not> in_class k (hd t) \<Longrightarrow>
   rx_match (Star k # rs) t = Some x"
  by (cases t) auto

lemma space_not_letter: "is_space c \<Longrightarrow> canonicalize c = c"
  by (auto simp: is_space_def canonicalize_def)

lemma head_not_space:
  assumes "toUpperCase a = toUpperCase P" "P \<noteq> []" "\<not> is_space (canonicalize (hd P))"
  shows "\<not> is_space (hd (a @ t))"
proof -
  from assms(1,2) obtain a0 as where a: "a = a0 # as"
    and c: "canonicalize a0 = canonicalize (hd P)"
    by (cases a; cases P) (auto simp: toUpperCase_def)
  show ?thesis
  proof
    assume "is_space (hd (a @ t))"
    with a have s: "is_space a0" by simp
    with space_not_letter c have "a0 = canonicalize (hd P)" by metis
    with s assms(3) show False by simp
  qed
qed

lemma star_space_then:
  assumes "list_all is_space ws" "toUpperCase a = toUpperCase P" "P \<noteq> []"
    "\<not> is_space (canonicalize (hd P))" "rx_match rs (a @ t) = Some x"
  shows "rx_match (Star Space # rs) (ws @ a @ t) = Some x"
proof -
  from head_not_space[OF assms(2,3,4)] have "\<not> in_class Space (hd (a @ t))" by simp
  with assms(5) have "rx_match (Star Space # rs) (a @ t) = Some x"
    by (simp add: star_enter)
  moreover from assms(1) have "list_all (in_class Space) ws"
    by (simp add: list_all_iff)
  ultimately show ?thesis by (rule star_skip[rotated])
qed

lemma group_keyword:
  assumes "K \<in> {js ''APPROVED'', js ''NEEDS_WORK'', js ''BLOCKED''}" "toUpperCase kw = K"
    "rx_match rs t = Some (g, r)"
  shows "rx_match (Group [js ''APPROVED'', js ''NEEDS_WORK'', js ''BLOCKED''] # rs) (kw @ t) =
           Some (kw, r)"
proof -
  have up: "toUpperCase K = K" using assms(1) by (auto simp: toUpperCase_def canonicalize_def js_def)
  from assms(2) up have same: "toUpperCase kw = toUpperCase K" by simp
  then have len: "length kw = length K" unfolding toUpperCase_def by (rule map_eq_imp_length_eq)
  have hit: "lit_prefix K (kw @ t) = Some t" using same by (rule lit_prefix_same)
  have miss: "\<And>A. A \<in> {js ''APPROVED'', js ''NEEDS_WORK'', js ''BLOCKED''} \<Longrightarrow> A \<noteq> K \<Longrightarrow>
      lit_prefix A (kw @ t) = None"
  proof -
    fix A assume A: "A \<in> {js ''APPROVED'', js ''NEEDS_WORK'', js ''BLOCKED''}" "A \<noteq> K"
    from assms(2) obtain k0 ks where kw: "kw = k0 # ks" and k0: "canonicalize k0 = hd K"
      using assms(1) by (cases kw) (auto simp: toUpperCase_def js_def)
    from A assms(1) have "canonicalize (hd A) \<noteq> hd K" "A \<noteq> []"
      by (auto simp: js_def canonicalize_def)
    with kw k0 show "lit_prefix A (kw @ t) = None" by (cases A) auto
  qed
  from assms(1) consider "K = js ''APPROVED''" | "K = js ''NEEDS_WORK''" | "K = js ''BLOCKED''"
    by auto
  then show ?thesis
  proof cases
    case 1
    with hit assms(3) len show ?thesis by simp
  next
    case 2
    then have "lit_prefix (js ''APPROVED'') (kw @ t) = None"
      using miss[of "js ''APPROVED''"] by (simp add: js_def)
    with 2 hit assms(3) len show ?thesis by simp
  next
    case 3
    then have "lit_prefix (js ''APPROVED'') (kw @ t) = None"
      "lit_prefix (js ''NEEDS_WORK'') (kw @ t) = None"
      using miss[of "js ''APPROVED''"] miss[of "js ''NEEDS_WORK''"] by (simp_all add: js_def)
    with 3 hit assms(3) len show ?thesis by simp
  qed
qed

lemma verdict_block_matches:
  assumes K: "K \<in> {js ''APPROVED'', js ''NEEDS_WORK'', js ''BLOCKED''}" "toUpperCase kw = K"
    and tags: "toUpperCase otag = toUpperCase (js ''<critic_verdict>'')"
      "toUpperCase stag = toUpperCase (js ''status:'')"
      "toUpperCase ctag = toUpperCase (js ''</critic_verdict>'')"
    and ws: "list_all is_space ws1" "list_all is_space ws2" "list_all is_space ws3"
  shows "rx_match VERDICT_RX (otag @ ws1 @ stag @ ws2 @ kw @ ws3 @ ctag @ rest) = Some (kw, rest)"
proof -
  let ?C = "js ''</critic_verdict>''" and ?S = "js ''status:''"
  let ?G = "Group [js ''APPROVED'', js ''NEEDS_WORK'', js ''BLOCKED'']"
  have upK: "toUpperCase K = K" using K(1) by (auto simp: toUpperCase_def canonicalize_def js_def)
  have 1: "rx_match [Lit ?C] (ctag @ rest) = Some ([], rest)"
    using tags(3) by (simp add: lit_prefix_same)
  have 2: "rx_match [Star Space, Lit ?C] (ws3 @ ctag @ rest) = Some ([], rest)"
    using ws(3) tags(3) _ _ 1
    by (rule star_space_then) (simp_all add: js_def canonicalize_def is_space_def)
  have 3: "rx_match [?G, Star Space, Lit ?C] (kw @ ws3 @ ctag @ rest) = Some (kw, rest)"
    using K 2 by (rule group_keyword)
  have kwK: "toUpperCase kw = toUpperCase K" using K(2) upK by simp
  have 4: "rx_match [Star Space, ?G, Star Space, Lit ?C] (ws2 @ kw @ ws3 @ ctag @ rest) =
      Some (kw, rest)"
    using ws(2) kwK _ _ 3
    by (rule star_space_then) (use K(1) in \<open>auto simp: js_def canonicalize_def is_space_def\<close>)
  have 5: "rx_match [Lit ?S, Star Space, ?G, Star Space, Lit ?C]
      (stag @ ws2 @ kw @ ws3 @ ctag @ rest) = Some (kw, rest)"
    using tags(2) 4 by (simp add: lit_prefix_same)
  have 6: "rx_match [Star Space, Lit ?S, Star Space, ?G, Star Space, Lit ?C]
      (ws1 @ stag @ ws2 @ kw @ ws3 @ ctag @ rest) = Some (kw, rest)"
    using ws(1) tags(2) _ _ 5
    by (rule star_space_then) (simp_all add: js_def canonicalize_def is_space_def)
  show ?thesis
    unfolding VERDICT_RX_def using tags(1) 6 by (simp add: lit_prefix_same)
qed

lemma rx_exec_first:
  "(\<forall>k < length p. rx_match rx (drop k (p @ m)) = None) \<Longrightarrow> rx_match rx m = Some (g, r) \<Longrightarrow>
   rx_exec rx (p @ m) = Some (p, g, r)"
proof (induction p)
  case Nil
  then show ?case by (cases m) simp_all
next
  case (Cons c p)
  from Cons.prems(1) have 0: "rx_match rx (c # p @ m) = None" by fastforce
  have "\<forall>k < length p. rx_match rx (drop k (p @ m)) = None"
  proof (intro allI impI)
    fix k assume "k < length p"
    then have "Suc k < length (c # p)" by simp
    with Cons.prems(1) have "rx_match rx (drop (Suc k) ((c # p) @ m)) = None" by blast
    then show "rx_match rx (drop k (p @ m)) = None" by simp
  qed
  from Cons.IH[OF this Cons.prems(2)] 0 show ?case by simp
qed

lemma no_open_no_match:
  "\<not> occurs (js ''<critic_verdict>'') s k \<Longrightarrow>
   rx_match VERDICT_RX (drop k s) = None \<and> rx_match STRIP_RX (drop k s) = None"
  by (simp add: occurs_def VERDICT_RX_def STRIP_RX_def)

lemma star_any_max:
  assumes "C \<noteq> []"
  shows "rx_match [Star AnyChar, Lit C] t = Some (g, r) \<Longrightarrow>
     \<exists>j. occurs C t j \<and> r = drop (j + length C) t \<and> (\<forall>j' > j. \<not> occurs C t j') \<and> g = []"
proof (induction t)
  case Nil
  with assms show ?case by (cases C) (auto split: option.splits)
next
  case (Cons c cs)
  show ?case
  proof (cases "rx_match [Star AnyChar, Lit C] cs")
    case (Some x)
    with Cons.prems have m: "rx_match [Star AnyChar, Lit C] cs = Some (g, r)" by simp
    with Cons.IH obtain j where j: "occurs C cs j" "r = drop (j + length C) cs"
      and n: "\<forall>j' > j. \<not> occurs C cs j'" and g: "g = []" by blast
    from j have 1: "occurs C (c # cs) (Suc j)" "r = drop (Suc j + length C) (c # cs)"
      by (simp_all add: occurs_def)
    have "\<forall>j' > Suc j. \<not> occurs C (c # cs) j'"
    proof (intro allI impI)
      fix j' assume "Suc j < j'"
      then obtain j'' where "j' = Suc j''" "j < j''" by (cases j') auto
      with n show "\<not> occurs C (c # cs) j'" by (simp add: occurs_def)
    qed
    with 1 g show ?thesis by blast
  next
    case None
    with Cons.prems have l: "lit_prefix C (c # cs) = Some r" and g: "g = []"
      by (auto split: option.splits)
    then have 1: "occurs C (c # cs) 0" "r = drop (0 + length C) (c # cs)"
      by (simp_all add: occurs_def lit_prefix_drop)
    from None star_any_finds have no: "\<And>j. \<not> occurs C cs j" by blast
    have "\<forall>j' > 0. \<not> occurs C (c # cs) j'"
    proof (intro allI impI)
      fix j' :: nat assume "0 < j'"
      then obtain j'' where "j' = Suc j''" by (cases j') auto
      with no show "\<not> occurs C (c # cs) j'" by (simp add: occurs_def)
    qed
    with 1 g show ?thesis by blast
  qed
qed

lemma strip_block_matches:
  assumes tags: "toUpperCase otag = toUpperCase (js ''<critic_verdict>'')"
      "toUpperCase ctag = toUpperCase (js ''</critic_verdict>'')"
    and last: "\<forall>j. \<not> occurs (js ''</critic_verdict>'') (tl (ctag @ rest)) j"
  shows "rx_match STRIP_RX (otag @ mid @ ctag @ rest) = Some ([], rest)"
proof -
  let ?C = "js ''</critic_verdict>''"
  let ?t = "mid @ ctag @ rest"
  have C: "?C \<noteq> []" by (rule js_nonempty)
  from tags(2) have len: "length ctag = length ?C"
    unfolding toUpperCase_def by (rule map_eq_imp_length_eq)
  from tags(2) have "lit_prefix ?C (ctag @ rest) = Some rest" by (rule lit_prefix_same)
  then have here: "occurs ?C ?t (length mid)" by (simp add: occurs_def)
  from star_any_finds[OF here] obtain g r where
    m: "rx_match [Star AnyChar, Lit ?C] ?t = Some (g, r)" by auto
  from star_any_max[OF C m] obtain j where j: "occurs ?C ?t j"
    and r: "r = drop (j + length ?C) ?t" and mx: "\<forall>j' > j. \<not> occurs ?C ?t j'"
    and g: "g = []" by blast
  from here mx have le: "length mid \<le> j" by (meson not_le_imp_less)
  have "j \<le> length mid"
  proof (rule ccontr)
    assume "\<not> j \<le> length mid"
    then have gt: "length mid < j" by simp
    then have e: "j - Suc (length mid) + Suc (length mid) = j" by arith
    have "drop (Suc (length mid)) ?t = drop (Suc 0) (ctag @ rest)"
      by (simp del: drop_Suc_Cons)
    then have "drop (Suc (length mid)) ?t = tl (ctag @ rest)"
      by (simp only: drop_Suc drop_0)
    moreover have "occurs ?C (drop (Suc (length mid)) ?t) (j - Suc (length mid)) \<longleftrightarrow>
        occurs ?C ?t (j - Suc (length mid) + Suc (length mid))"
      by (rule occurs_drop[OF C])
    ultimately have "occurs ?C (tl (ctag @ rest)) (j - Suc (length mid))"
      using j unfolding e by simp
    with last show False by blast
  qed
  with le have "j = length mid" by simp
  with r len have "r = rest" by simp
  with m g have "rx_match [Star AnyChar, Lit ?C] ?t = Some ([], rest)" by simp
  with tags(1) show ?thesis
    unfolding STRIP_RX_def by (simp add: lit_prefix_same)
qed

lemma parseVerdict_block:
  assumes K: "K \<in> {js ''APPROVED'', js ''NEEDS_WORK'', js ''BLOCKED''}" "toUpperCase kw = K"
    and tags: "toUpperCase otag = toUpperCase (js ''<critic_verdict>'')"
      "toUpperCase stag = toUpperCase (js ''status:'')"
      "toUpperCase ctag = toUpperCase (js ''</critic_verdict>'')"
    and ws: "list_all is_space ws1" "list_all is_space ws2" "list_all is_space ws3"
    and first: "\<forall>k < length pre. \<not> occurs (js ''<critic_verdict>'')
        (pre @ otag @ ws1 @ stag @ ws2 @ kw @ ws3 @ ctag @ rest) k"
  shows "js_match (pre @ otag @ ws1 @ stag @ ws2 @ kw @ ws3 @ ctag @ rest) VERDICT_RX = Some kw"
    and "v_status (parseVerdict (pre @ otag @ ws1 @ stag @ ws2 @ kw @ ws3 @ ctag @ rest)) = K"
    and "v_approved (parseVerdict (pre @ otag @ ws1 @ stag @ ws2 @ kw @ ws3 @ ctag @ rest)) \<longleftrightarrow>
           K = js ''APPROVED''"
    and "(\<forall>j. \<not> occurs (js ''</critic_verdict>'') (tl (ctag @ rest)) j) \<Longrightarrow>
         v_critique (parseVerdict (pre @ otag @ ws1 @ stag @ ws2 @ kw @ ws3 @ ctag @ rest)) =
           trim (pre @ rest)"
proof -
  let ?block = "otag @ ws1 @ stag @ ws2 @ kw @ ws3 @ ctag @ rest"
  have m: "rx_match VERDICT_RX ?block = Some (kw, rest)"
    using K tags ws by (rule verdict_block_matches)
  have "\<forall>k < length pre. rx_match VERDICT_RX (drop k (pre @ ?block)) = None"
    using first no_open_no_match by blast
  from rx_exec_first[OF this m] have e: "rx_exec VERDICT_RX (pre @ ?block) = Some (pre, kw, rest)" .
  then show j: "js_match (pre @ ?block) VERDICT_RX = Some kw"
    by (simp add: js_match_def)
  with K(2) show "v_status (parseVerdict (pre @ ?block)) = K"
    "v_approved (parseVerdict (pre @ ?block)) \<longleftrightarrow> K = js ''APPROVED''"
    by (simp_all add: parseVerdict_def)
  assume last: "\<forall>j. \<not> occurs (js ''</critic_verdict>'') (tl (ctag @ rest)) j"
  have "rx_match STRIP_RX (otag @ (ws1 @ stag @ ws2 @ kw @ ws3) @ ctag @ rest) = Some ([], rest)"
    using tags(1,3) last by (rule strip_block_matches)
  then have s: "rx_match STRIP_RX ?block = Some ([], rest)" by simp
  have "\<forall>k < length pre. rx_match STRIP_RX (drop k (pre @ ?block)) = None"
    using first no_open_no_match by blast
  from rx_exec_first[OF this s] have "rx_exec STRIP_RX (pre @ ?block) = Some (pre, [], rest)" .
  with j show "v_critique (parseVerdict (pre @ ?block)) = trim (pre @ rest)"
    by (simp add: parseVerdict_def js_replace_empty_def)
qed

lemma parseVerdict_status:
  "v_status (parseVerdict text) \<in> {js ''APPROVED'', js ''NEEDS_WORK'', js ''BLOCKED''} \<and>
   (v_approved (parseVerdict text) \<longleftrightarrow> v_status (parseVerdict text) = js ''APPROVED'')"
proof (cases "js_match text VERDICT_RX")
  case None
  then show ?thesis by (simp add: parseVerdict_def js_def)
next
  case (Some g)
  from parseVerdict_marker(1,2)[OF Some] show ?thesis by simp
qed

lemma parseVerdict_cases:
  "v_status (parseVerdict text) \<in> {js ''APPROVED'', js ''NEEDS_WORK'', js ''BLOCKED''} \<and>
   (v_approved (parseVerdict text) \<longleftrightarrow> v_status (parseVerdict text) = js ''APPROVED'') \<and>
   (js_match text VERDICT_RX \<noteq> None \<longrightarrow>
      js_match (v_critique (parseVerdict text)) VERDICT_RX = None \<and>
      (\<exists>p m r. text = p @ m @ r \<and> occurs (js ''<critic_verdict>'') m 0 \<and>
         occurs (js ''</critic_verdict>'') m (length m - length (js ''</critic_verdict>'')) \<and>
         v_critique (parseVerdict text) = trim (p @ r))) \<and>
   (js_match text VERDICT_RX = None \<longrightarrow>
      parseVerdict text = \<lparr>v_critique = text, v_approved = False, v_status = js ''NEEDS_WORK''\<rparr>)"
proof (cases "js_match text VERDICT_RX")
  case None
  then show ?thesis by (simp add: parseVerdict_def js_def)
next
  case (Some g)
  then obtain p r where e: "rx_exec VERDICT_RX text = Some (p, g, r)"
    by (auto simp: js_match_def split: option.splits)
  from verdict_implies_strip[OF e] obtain p' g' r' where
    s: "rx_exec STRIP_RX text = Some (p', g', r')" by auto
  from s Some have c: "v_critique (parseVerdict text) = trim (p' @ r')"
    by (simp add: parseVerdict_def js_replace_empty_def)
  from strip_span[OF s] c
  have "\<exists>p m r. text = p @ m @ r \<and> occurs (js ''<critic_verdict>'') m 0 \<and>
         occurs (js ''</critic_verdict>'') m (length m - length (js ''</critic_verdict>'')) \<and>
         v_critique (parseVerdict text) = trim (p @ r)" by metis
  with parseVerdict_marker[OF Some] Some show ?thesis by simp
qed

section \<open>The review process runner\<close>

lemmas run_defs = runCritic_def runCritic_try_def runCriticSync_def runCriticSync_try_def
  catch_result_def exit_code_def last_assistant_text_def
  ex_sync_timeout_def ex_launch_failure_def ex_silent_def ex_blank_output_def

lemma no_marker_in_placeholder: "js_match (js ''(No response from critic)'') VERDICT_RX = None"
  by (simp add: rx_defs)

lemma parse_placeholder:
  "parseVerdict (js ''(No response from critic)'') =
     \<lparr>v_critique = js ''(No response from critic)'', v_approved = False,
      v_status = js ''NEEDS_WORK''\<rparr>"
  by (simp add: parseVerdict_def no_marker_in_placeholder)

lemma parse_empty:
  "parseVerdict [] = \<lparr>v_critique = [], v_approved = False, v_status = js ''NEEDS_WORK''\<rparr>"
  by (simp add: rx_defs)

lemma runCritic_returns: "\<exists>r. runCritic timeoutMs env = Inr r"
  by (simp add: runCritic_def split: sum.splits)

lemma runCriticSync_returns: "\<exists>r. runCriticSync env = Inr r"
  by (simp add: runCriticSync_def split: sum.splits)

lemma runCritic_nonzero_exit:
  assumes "exit_code (pr_end proc) \<noteq> 0"
    and "runCritic timeoutMs (Spawned proc) = Inr r"
  shows "truthy (error r)"
  using assms
  by (auto simp: runCritic_def runCritic_try_def Let_def js_nonempty
           split: prod.splits if_splits)

lemma runCritic_empty_output:
  assumes "\<not> pr_timedOut proc" "\<not> pr_aborted proc" "exit_code (pr_end proc) = 0"
    and "pr_end proc = Closed code"
    and "foldl processLine ([], None) (pr_lines proc) = (messages, streamError)"
    and "last_assistant_text messages = []" "\<not> truthy streamError"
  shows "runCritic timeoutMs (Spawned proc) =
     Inr \<lparr>critique = js ''(No response from critic)'', approved = False,
          status = Some (js ''NEEDS_WORK''), error = Some (js ''Critic returned empty response''),
          timedOut = Some False\<rparr>"
  using assms
  by (simp add: runCritic_def runCritic_try_def Let_def parse_placeholder)

lemma runCriticSync_launch_failure:
  "sp_error sp = Some message \<Longrightarrow>
   runCriticSync (Spawned sp) =
     Inr \<lparr>critique = [], approved = False, status = None, error = Some message, timedOut = None\<rparr>"
  by (simp add: runCriticSync_def runCriticSync_try_def)

lemma runCritic_timeout:
  "pr_timedOut proc \<Longrightarrow>
   runCritic timeoutMs (Spawned proc) =
     Inr \<lparr>critique = js ''(Critic timed out)'', approved = False, status = None,
          error = Some (js ''Critic timed out after '' @ num_to_string timeoutMs @ js ''ms''),
          timedOut = Some True\<rparr>"
  by (simp add: runCritic_def runCritic_try_def Let_def split: prod.splits)

lemma runCriticSync_sigterm:
  "sp_error sp = None \<Longrightarrow> sp_signal sp = Some (js ''SIGTERM'') \<Longrightarrow>
   runCriticSync (Spawned sp) =
     Inr \<lparr>critique = [], approved = False, status = None, error = Some (js ''Critic timed out''),
          timedOut = Some True\<rparr>"
  by (simp add: runCriticSync_def runCriticSync_try_def)

lemma runCriticSync_blank_output: "runCriticSync (Spawned ex_blank_output) = Inr ex_blank"
  by (simp add: run_defs ex_blank_def) (simp add: rx_defs)

lemma status_of_verdict:
  assumes "approved r = v_approved (parseVerdict t)" "status r = Some (v_status (parseVerdict t))"
  shows "status r \<in> {None, Some (js ''APPROVED''), Some (js ''NEEDS_WORK''), Some (js ''BLOCKED'')} \<and>
         (approved r \<longleftrightarrow> status r = Some (js ''APPROVED''))"
  using parseVerdict_status[of t] assms by auto

lemma status_unset:
  assumes "\<not> approved r" "status r = None"
  shows "status r \<in> {None, Some (js ''APPROVED''), Some (js ''NEEDS_WORK''), Some (js ''BLOCKED'')} \<and>
         (approved r \<longleftrightarrow> status r = Some (js ''APPROVED''))"
  using assms by simp

lemma runCriticSync_shape:
  assumes "runCriticSync senv = Inr r"
  shows "(\<not> approved r \<and> status r = None) \<or>
         (\<exists>t. approved r = v_approved (parseVerdict t) \<and> status r = Some (v_status (parseVerdict t)))"
proof (cases senv)
  case (Spawned sp)
  show ?thesis
  proof (cases "sp_error sp = None \<and> sp_signal sp \<noteq> Some (js ''SIGTERM'')")
    case True
    with Spawned assms
    have "approved r = v_approved (parseVerdict (foldl sync_line [] (sp_stdout sp))) \<and>
          status r = Some (v_status (parseVerdict (foldl sync_line [] (sp_stdout sp))))"
      by (auto simp: runCriticSync_def runCriticSync_try_def Let_def)
    then show ?thesis by blast
  next
    case False
    with Spawned assms have "\<not> approved r \<and> status r = None"
      by (auto simp: runCriticSync_def runCriticSync_try_def split: option.splits)
    then show ?thesis by blast
  qed
qed (use assms in \<open>auto simp: runCriticSync_def runCriticSync_try_def catch_result_def\<close>)

lemma runCritic_shape:
  assumes "runCritic timeoutMs env = Inr r"
  shows "(\<not> approved r \<and> status r = None) \<or>
         (\<exists>t. approved r = v_approved (parseVerdict t) \<and> status r = Some (v_status (parseVerdict t)))"
proof (cases env)
  case (Spawned proc)
  obtain messages streamError where f:
    "foldl processLine ([], None) (pr_lines proc) = (messages, streamError)"
    by (cases "foldl processLine ([], None) (pr_lines proc)") auto
  show ?thesis
  proof (cases "pr_timedOut proc \<or> pr_aborted proc")
    case True
    with Spawned assms f have "\<not> approved r \<and> status r = None"
      by (cases "pr_timedOut proc") (auto simp: runCritic_def runCritic_try_def)
    then show ?thesis by blast
  next
    case False
    with Spawned assms f
    have "\<exists>t. approved r = v_approved (parseVerdict t) \<and> status r = Some (v_status (parseVerdict t))"
      by (auto simp: runCritic_def runCritic_try_def Let_def)
    then show ?thesis by blast
  qed
qed (use assms in \<open>auto simp: runCritic_def runCritic_try_def catch_result_def\<close>)

lemma runner_status:
  assumes "runCriticSync senv = Inr r \<or> runCritic timeoutMs env = Inr r"
  shows "status r \<in> {None, Some (js ''APPROVED''), Some (js ''NEEDS_WORK''), Some (js ''BLOCKED'')} \<and>
         (approved r \<longleftrightarrow> status r = Some (js ''APPROVED''))"
proof -
  from assms runCriticSync_shape runCritic_shape
  have "(\<not> approved r \<and> status r = None) \<or>
         (\<exists>t. approved r = v_approved (parseVerdict t) \<and> status r = Some (v_status (parseVerdict t)))"
    by blast
  then show ?thesis using status_of_verdict status_unset by blast
qed

lemma canonicalize_lt: "canonicalize c = 60 \<longleftrightarrow> c = 60"
  by (auto simp: canonicalize_def)

lemma occurs_head:
  assumes "P \<noteq> []" "occurs P s j"
  shows "j < length s \<and> canonicalize (s ! j) = canonicalize (hd P)"
proof -
  from assms obtain p ps where P: "P = p # ps" by (cases P) auto
  from assms(2) P obtain c cs where d: "drop j s = c # cs" and c: "canonicalize c = canonicalize p"
    by (cases "drop j s") (auto simp: occurs_def split: if_splits)
  from d have "j < length s" by (metis drop_all list.distinct(1) not_le_imp_less)
  moreover from this d have "s ! j = c" by (metis Cons_nth_drop_Suc list.inject)
  ultimately show ?thesis using c P by simp
qed

lemma no_tag_without_lt:
  assumes "P \<noteq> []" "canonicalize (hd P) = 60" "60 \<notin> set s"
  shows "\<not> occurs P s j"
proof
  assume "occurs P s j"
  from occurs_head[OF assms(1) this] assms(2) have "j < length s" "s ! j = 60"
    by (simp_all add: canonicalize_lt)
  with assms(3) show False by (metis nth_mem)
qed

lemma no_tag_before:
  assumes "P \<noteq> []" "canonicalize (hd P) = 60" "60 \<notin> set pre" "k < length pre"
  shows "\<not> occurs P (pre @ t) k"
proof
  assume "occurs P (pre @ t) k"
  from occurs_head[OF assms(1) this] assms(2,4) have "pre ! k = 60"
    by (simp add: canonicalize_lt nth_append)
  with assms(3,4) show False by (metis nth_mem)
qed

lemma runCriticSync_parses:
  "sp_error sp = None \<Longrightarrow> sp_signal sp \<noteq> Some (js ''SIGTERM'') \<Longrightarrow>
   runCriticSync (Spawned sp) =
     Inr \<lparr>critique = v_critique (parseVerdict (foldl sync_line [] (sp_stdout sp))),
          approved = v_approved (parseVerdict (foldl sync_line [] (sp_stdout sp))),
          status = Some (v_status (parseVerdict (foldl sync_line [] (sp_stdout sp)))),
          error = None, timedOut = None\<rparr>"
  by (simp add: runCriticSync_def runCriticSync_try_def Let_def)

lemma runCritic_parses:
  assumes "\<not> pr_timedOut proc" "\<not> pr_aborted proc"
    and "last_assistant_text (fst (foldl processLine ([], None) (pr_lines proc))) = crit"
    and "crit \<noteq> []"
  shows "\<exists>err. runCritic timeoutMs (Spawned proc) =
     Inr \<lparr>critique = v_critique (parseVerdict crit), approved = v_approved (parseVerdict crit),
          status = Some (v_status (parseVerdict crit)), error = err, timedOut = Some False\<rparr>"
  using assms
  by (cases "foldl processLine ([], None) (pr_lines proc)")
     (simp add: runCritic_def runCritic_try_def Let_def)

lemma ex_approved_nonempty: "ex_approved \<noteq> []"
  by (simp add: ex_approved_def js_def)

lemma parseVerdict_ex_approved:
  "parseVerdict ex_approved =
     \<lparr>v_critique = js ''LGTM.'', v_approved = True, v_status = js ''APPROVED''\<rparr>"
  by (simp add: rx_defs ex_approved_def)

text \<open>
  Claim C3.  For every critique text the verdict parser (the last step of \<^verbatim>\<open>runCritic\<close> and
  of \<^verbatim>\<open>runCriticSync\<close>) yields a status that is one of \<^verbatim>\<open>APPROVED\<close>, \<^verbatim>\<open>NEEDS_WORK\<close>,
  \<^verbatim>\<open>BLOCKED\<close>, and \<^verbatim>\<open>approved\<close> holds exactly when the status is \<^verbatim>\<open>APPROVED\<close>.  When the
  text holds a verdict block (the pattern matches, in any letter case), the returned critique
  is the text with one span cut out, from an opening tag to a closing tag, and trimmed, and
  no verdict block is left in it.  When the text holds no verdict block the result is
  \<^verbatim>\<open>NEEDS_WORK\<close>, not approved, and the critique is the text as it was.  Accordingly every
  result either runner returns has no status (the early returns and the \<^verbatim>\<open>catch\<close> block)
  or one of the three, and is approved exactly when its status is \<^verbatim>\<open>APPROVED\<close>.

  The status is the keyword of the block that is found: it is the captured keyword in upper
  case.  Spelled out on the text itself: let the text be some \<open>pre\<close>, then an opening tag,
  white space, \<^verbatim>\<open>status:\<close>, white space, one of the three keywords, white space, a closing
  tag (tags, \<^verbatim>\<open>status:\<close> and keyword in any letter case), then some \<open>rest\<close>, with no opening
  tag starting inside \<open>pre\<close>.  Then the keyword is the one captured, the status is that
  keyword in upper case, and \<^verbatim>\<open>approved\<close> holds exactly when the keyword is \<^verbatim>\<open>APPROVED\<close>;
  if moreover no closing tag starts after the start of the block's closing tag, the returned
  critique is \<open>pre\<close> followed by \<open>rest\<close>, trimmed.  Both runners return this parse: the
  synchronous one that of the critique it read from the output, when the process neither
  failed to start nor was killed by \<^verbatim>\<open>SIGTERM\<close>; the asynchronous one that of the last
  assistant text, when there is one and the run was neither timed out nor aborted.
\<close>

theorem verdict_parser:
  "v_status (parseVerdict text) \<in> {js ''APPROVED'', js ''NEEDS_WORK'', js ''BLOCKED''} \<and>
   (v_approved (parseVerdict text) \<longleftrightarrow> v_status (parseVerdict text) = js ''APPROVED'') \<and>
   (js_match text VERDICT_RX \<noteq> None \<longrightarrow>
      js_match (v_critique (parseVerdict text)) VERDICT_RX = None \<and>
      (\<exists>p m r. text = p @ m @ r \<and> occurs (js ''<critic_verdict>'') m 0 \<and>
         occurs (js ''</critic_verdict>'') m (length m - length (js ''</critic_verdict>'')) \<and>
         v_critique (parseVerdict text) = trim (p @ r))) \<and>
   (js_match text VERDICT_RX = None \<longrightarrow>
      parseVerdict text = \<lparr>v_critique = text, v_approved = False, v_status = js ''NEEDS_WORK''\<rparr>) \<and>
   (runCriticSync senv = Inr res \<or> runCritic timeoutMs env = Inr res \<longrightarrow>
      status res \<in> {None, Some (js ''APPROVED''), Some (js ''NEEDS_WORK''), Some (js ''BLOCKED'')} \<and>
      (approved res \<longleftrightarrow> status res = Some (js ''APPROVED''))) \<and>
   (js_match text VERDICT_RX = Some g \<longrightarrow>
      v_status (parseVerdict text) = toUpperCase g \<and>
      (v_approved (parseVerdict text) \<longleftrightarrow> toUpperCase g = js ''APPROVED'')) \<and>
   (K \<in> {js ''APPROVED'', js ''NEEDS_WORK'', js ''BLOCKED''} \<longrightarrow> toUpperCase kw = K \<longrightarrow>
    toUpperCase otag = toUpperCase (js ''<critic_verdict>'') \<longrightarrow>
    toUpperCase stag = toUpperCase (js ''status:'') \<longrightarrow>
    toUpperCase ctag = toUpperCase (js ''</critic_verdict>'') \<longrightarrow>
    list_all is_space ws1 \<longrightarrow> list_all is_space ws2 \<longrightarrow> list_all is_space ws3 \<longrightarrow>
    (\<forall>k < length pre. \<not> occurs (js ''<critic_verdict>'')
        (pre @ otag @ ws1 @ stag @ ws2 @ kw @ ws3 @ ctag @ rest) k) \<longrightarrow>
      js_match (pre @ otag @ ws1 @ stag @ ws2 @ kw @ ws3 @ ctag @ rest) VERDICT_RX = Some kw \<and>
      v_status (parseVerdict (pre @ otag @ ws1 @ stag @ ws2 @ kw @ ws3 @ ctag @ rest)) = K \<and>
      (v_approved (parseVerdict (pre @ otag @ ws1 @ stag @ ws2 @ kw @ ws3 @ ctag @ rest)) \<longleftrightarrow>
         K = js ''APPROVED'') \<and>
      ((\<forall>j. \<not> occurs (js ''</critic_verdict>'') (tl (ctag @ rest)) j) \<longrightarrow>
         v_critique (parseVerdict (pre @ otag @ ws1 @ stag @ ws2 @ kw @ ws3 @ ctag @ rest)) =
           trim (pre @ rest))) \<and>
   (sp_error sp = None \<longrightarrow> sp_signal sp \<noteq> Some (js ''SIGTERM'') \<longrightarrow>
      runCriticSync (Spawned sp) =
        Inr \<lparr>critique = v_critique (parseVerdict (foldl sync_line [] (sp_stdout sp))),
             approved = v_approved (parseVerdict (foldl sync_line [] (sp_stdout sp))),
             status = Some (v_status (parseVerdict (foldl sync_line [] (sp_stdout sp)))),
             error = None, timedOut = None\<rparr>) \<and>
   (\<not> pr_timedOut proc \<longrightarrow> \<not> pr_aborted proc \<longrightarrow>
    last_assistant_text (fst (foldl processLine ([], None) (pr_lines proc))) = crit \<longrightarrow>
    crit \<noteq> [] \<longrightarrow>
      (\<exists>err. runCritic timeoutMs (Spawned proc) =
         Inr \<lparr>critique = v_critique (parseVerdict crit), approved = v_approved (parseVerdict crit),
              status = Some (v_status (parseVerdict crit)), error = err,
              timedOut = Some False\<rparr>))"
proof -
  have 1: "js_match text VERDICT_RX = Some g \<longrightarrow>
      v_status (parseVerdict text) = toUpperCase g \<and>
      (v_approved (parseVerdict text) \<longleftrightarrow> toUpperCase g = js ''APPROVED'')"
    by (simp add: parseVerdict_def)
  have 2: "K \<in> {js ''APPROVED'', js ''NEEDS_WORK'', js ''BLOCKED''} \<longrightarrow> toUpperCase kw = K \<longrightarrow>
    toUpperCase otag = toUpperCase (js ''<critic_verdict>'') \<longrightarrow>
    toUpperCase stag = toUpperCase (js ''status:'') \<longrightarrow>
    toUpperCase ctag = toUpperCase (js ''</critic_verdict>'') \<longrightarrow>
    list_all is_space ws1 \<longrightarrow> list_all is_space ws2 \<longrightarrow> list_all is_space ws3 \<longrightarrow>
    (\<forall>k < length pre. \<not> occurs (js ''<critic_verdict>'')
        (pre @ otag @ ws1 @ stag @ ws2 @ kw @ ws3 @ ctag @ rest) k) \<longrightarrow>
      js_match (pre @ otag @ ws1 @ stag @ ws2 @ kw @ ws3 @ ctag @ rest) VERDICT_RX = Some kw \<and>
      v_status (parseVerdict (pre @ otag @ ws1 @ stag @ ws2 @ kw @ ws3 @ ctag @ rest)) = K \<and>
      (v_approved (parseVerdict (pre @ otag @ ws1 @ stag @ ws2 @ kw @ ws3 @ ctag @ rest)) \<longleftrightarrow>
         K = js ''APPROVED'') \<and>
      ((\<forall>j. \<not> occurs (js ''</critic_verdict>'') (tl (ctag @ rest)) j) \<longrightarrow>
         v_critique (parseVerdict (pre @ otag @ ws1 @ stag @ ws2 @ kw @ ws3 @ ctag @ rest)) =
           trim (pre @ rest))"
    using parseVerdict_block[of K kw otag stag ctag ws1 ws2 ws3 pre rest] by blast
  have 3: "sp_error sp = None \<longrightarrow> sp_signal sp \<noteq> Some (js ''SIGTERM'') \<longrightarrow>
      runCriticSync (Spawned sp) =
        Inr \<lparr>critique = v_critique (parseVerdict (foldl sync_line [] (sp_stdout sp))),
             approved = v_approved (parseVerdict (foldl sync_line [] (sp_stdout sp))),
             status = Some (v_status (parseVerdict (foldl sync_line [] (sp_stdout sp)))),
             error = None, timedOut = None\<rparr>"
    using runCriticSync_parses by blast
  have 4: "\<not> pr_timedOut proc \<longrightarrow> \<not> pr_aborted proc \<longrightarrow>
    last_assistant_text (fst (foldl processLine ([], None) (pr_lines proc))) = crit \<longrightarrow>
    crit \<noteq> [] \<longrightarrow>
      (\<exists>err. runCritic timeoutMs (Spawned proc) =
         Inr \<lparr>critique = v_critique (parseVerdict crit), approved = v_approved (parseVerdict crit),
              status = Some (v_status (parseVerdict crit)), error = err,
              timedOut = Some False\<rparr>)"
    using runCritic_parses by blast
  from parseVerdict_cases[of "text"] runner_status[of senv res timeoutMs env] 1 2 3 4
  show ?thesis by blast
qed

theorem verdict_parser_witness:
  "js_match ex_review VERDICT_RX \<noteq> None \<and>
   parseVerdict ex_review =
     \<lparr>v_critique = js ''Fix it.'', v_approved = False, v_status = js ''NEEDS_WORK''\<rparr> \<and>
   js_match (v_critique (parseVerdict ex_review)) VERDICT_RX = None \<and>
   (\<exists>p m r. ex_review = p @ m @ r \<and> occurs (js ''<critic_verdict>'') m 0 \<and>
      occurs (js ''</critic_verdict>'') m (length m - length (js ''</critic_verdict>'')) \<and>
      v_critique (parseVerdict ex_review) = trim (p @ r)) \<and>
   js_match ex_plain VERDICT_RX = None \<and>
   parseVerdict ex_plain =
     \<lparr>v_critique = ex_plain, v_approved = False, v_status = js ''NEEDS_WORK''\<rparr> \<and>
   runCriticSync (Spawned ex_blank_output) = Inr ex_blank \<and>
   status ex_blank
     \<in> {None, Some (js ''APPROVED''), Some (js ''NEEDS_WORK''), Some (js ''BLOCKED'')} \<and>
   (approved ex_blank \<longleftrightarrow> status ex_blank = Some (js ''APPROVED'')) \<and>
   js_match ex_review VERDICT_RX = Some (js ''needs_work'') \<and>
   v_status (parseVerdict ex_review) = toUpperCase (js ''needs_work'') \<and>
   (v_approved (parseVerdict ex_review) \<longleftrightarrow> toUpperCase (js ''needs_work'') = js ''APPROVED'') \<and>
   toUpperCase (js ''needs_work'') = js ''NEEDS_WORK'' \<and>
   js ''APPROVED'' \<in> {js ''APPROVED'', js ''NEEDS_WORK'', js ''BLOCKED''} \<and>
   toUpperCase (js ''Approved'') = js ''APPROVED'' \<and>
   toUpperCase (js ''</CRITIC_VERDICT>'') = toUpperCase (js ''</critic_verdict>'') \<and>
   list_all is_space [10] \<and> list_all is_space [32] \<and>
   60 \<notin> set (js ''LGTM.'' @ [10]) \<and> 60 \<notin> set (tl (js ''</CRITIC_VERDICT>'' @ [10])) \<and>
   ex_approved =
     (js ''LGTM.'' @ [10]) @ js ''<critic_verdict>'' @ [10] @ js ''status:'' @ [32] @
     js ''Approved'' @ [10] @ js ''</CRITIC_VERDICT>'' @ [10] \<and>
   js_match ex_approved VERDICT_RX = Some (js ''Approved'') \<and>
   v_status (parseVerdict ex_approved) = js ''APPROVED'' \<and>
   v_approved (parseVerdict ex_approved) \<and>
   v_critique (parseVerdict ex_approved) = trim ((js ''LGTM.'' @ [10]) @ [10]) \<and>
   parseVerdict ex_approved =
     \<lparr>v_critique = js ''LGTM.'', v_approved = True, v_status = js ''APPROVED''\<rparr> \<and>
   sp_error ex_approved_output = None \<and> sp_signal ex_approved_output \<noteq> Some (js ''SIGTERM'') \<and>
   foldl sync_line [] (sp_stdout ex_approved_output) = ex_approved \<and>
   runCriticSync (Spawned ex_approved_output) =
     Inr \<lparr>critique = js ''LGTM.'', approved = True, status = Some (js ''APPROVED''),
          error = None, timedOut = None\<rparr> \<and>
   \<not> pr_timedOut ex_approved_run \<and> \<not> pr_aborted ex_approved_run \<and>
   last_assistant_text (fst (foldl processLine ([], None) (pr_lines ex_approved_run))) =
     ex_approved \<and>
   ex_approved \<noteq> [] \<and>
   (\<exists>err. runCritic 300000 (Spawned ex_approved_run) =
      Inr \<lparr>critique = js ''LGTM.'', approved = True, status = Some (js ''APPROVED''),
           error = err, timedOut = Some False\<rparr>)"
proof -
  let ?O = "js ''<critic_verdict>''" and ?C = "js ''</critic_verdict>''"
  let ?pre = "js ''LGTM.'' @ [10]" and ?ctag = "js ''</CRITIC_VERDICT>''"
  let ?t = "?pre @ ?O @ [10] @ js ''status:'' @ [32] @ js ''Approved'' @ [10] @ ?ctag @ [10]"
  have a: "js_match ex_review VERDICT_RX \<noteq> None"
    by (simp add: rx_defs)
  have b: "js_match ex_plain VERDICT_RX = None"
    by (simp add: rx_defs)
  have c: "parseVerdict ex_review =
     \<lparr>v_critique = js ''Fix it.'', v_approved = False, v_status = js ''NEEDS_WORK''\<rparr>"
    by (simp add: rx_defs)
  note found = verdict_parser[where ?text = ex_review, THEN conjunct2, THEN conjunct2, THEN conjunct1]
  from a found
  have d: "js_match (v_critique (parseVerdict ex_review)) VERDICT_RX = None"
    and f: "\<exists>p m r. ex_review = p @ m @ r \<and> occurs (js ''<critic_verdict>'') m 0 \<and>
      occurs (js ''</critic_verdict>'') m (length m - length (js ''</critic_verdict>'')) \<and>
      v_critique (parseVerdict ex_review) = trim (p @ r)"
    by blast+
  note absent = verdict_parser[where ?text = ex_plain, THEN conjunct2, THEN conjunct2, THEN conjunct2, THEN conjunct1]
  from b absent
  have g: "parseVerdict ex_plain =
     \<lparr>v_critique = ex_plain, v_approved = False, v_status = js ''NEEDS_WORK''\<rparr>"
    by blast
  note h = runCriticSync_blank_output
  note runner = verdict_parser[where senv = "Spawned ex_blank_output" and res = ex_blank, THEN conjunct2, THEN conjunct2, THEN conjunct2, THEN conjunct2, THEN conjunct1]
  from h runner
  have i1: "status ex_blank
       \<in> {None, Some (js ''APPROVED''), Some (js ''NEEDS_WORK''), Some (js ''BLOCKED'')}"
    and i2: "approved ex_blank \<longleftrightarrow> status ex_blank = Some (js ''APPROVED'')"
    by blast+
  have k: "js_match ex_review VERDICT_RX = Some (js ''needs_work'')"
    by (simp add: rx_defs)
  note keyword = verdict_parser[where ?text = ex_review and g = "js ''needs_work''", THEN conjunct2, THEN conjunct2, THEN conjunct2, THEN conjunct2, THEN conjunct2, THEN conjunct1]
  from k keyword
  have l1: "v_status (parseVerdict ex_review) = toUpperCase (js ''needs_work'')"
    and l2: "v_approved (parseVerdict ex_review) \<longleftrightarrow>
       toUpperCase (js ''needs_work'') = js ''APPROVED''"
    by blast+
  have l3: "toUpperCase (js ''needs_work'') = js ''NEEDS_WORK''"
    by (simp add: toUpperCase_def canonicalize_def js_def)
  have m1: "js ''APPROVED'' \<in> {js ''APPROVED'', js ''NEEDS_WORK'', js ''BLOCKED''}"
    by simp
  have m2: "toUpperCase (js ''Approved'') = js ''APPROVED''"
    and m5: "toUpperCase ?ctag = toUpperCase ?C"
    by (simp_all add: toUpperCase_def canonicalize_def js_def)
  have m6: "list_all is_space [10]" and m7: "list_all is_space [32]"
    by (simp_all add: is_space_def)
  have m8: "60 \<notin> set ?pre" and m9: "60 \<notin> set (tl (?ctag @ [10]))"
    by (simp_all add: js_def)
  have lt1: "canonicalize (hd ?O) = 60" and lt2: "canonicalize (hd ?C) = 60"
    by (simp_all add: js_def canonicalize_def)
  have first: "\<forall>k < length ?pre. \<not> occurs ?O ?t k"
    using no_tag_before[OF js_nonempty lt1 m8] by blast
  have last: "\<forall>j. \<not> occurs ?C (tl (?ctag @ [10])) j"
    using no_tag_without_lt[OF js_nonempty lt2 m9] by blast
  have n: "ex_approved = ?t"
    by (simp only: ex_approved_def)
  note block = verdict_parser[where K = "js ''APPROVED''" and kw = "js ''Approved''"
      and otag = ?O and stag = "js ''status:''" and ctag = ?ctag and ?ws1.0 = "[10]"
      and ?ws2.0 = "[32]" and ?ws3.0 = "[10]" and pre = ?pre and rest = "[10]", THEN conjunct2, THEN conjunct2, THEN conjunct2, THEN conjunct2, THEN conjunct2, THEN conjunct2, THEN conjunct1,
      THEN mp, OF m1, THEN mp, OF m2, THEN mp, OF refl, THEN mp, OF refl, THEN mp, OF m5, THEN mp, OF m6, THEN mp, OF m7, THEN mp, OF m6, THEN mp, OF first]
  note o = block[THEN conjunct1, folded n]
  note p = block[THEN conjunct2, THEN conjunct1, folded n]
  from block[THEN conjunct2, THEN conjunct2, THEN conjunct1, folded n]
  have q: "v_approved (parseVerdict ex_approved)"
    by simp
  from last block[THEN conjunct2, THEN conjunct2, THEN conjunct2, folded n]
  have r: "v_critique (parseVerdict ex_approved) = trim (?pre @ [10])"
    by blast
  note s = parseVerdict_ex_approved
  have u: "sp_error ex_approved_output = None"
    and v: "sp_signal ex_approved_output \<noteq> Some (js ''SIGTERM'')"
    and w: "foldl sync_line [] (sp_stdout ex_approved_output) = ex_approved"
    by (simp_all add: ex_approved_output_def ex_approved_nonempty)
  note sync = verdict_parser[where sp = ex_approved_output, THEN conjunct2, THEN conjunct2, THEN conjunct2, THEN conjunct2, THEN conjunct2, THEN conjunct2, THEN conjunct2, THEN conjunct1, THEN mp, OF u, THEN mp, OF v]
  from sync have x: "runCriticSync (Spawned ex_approved_output) =
     Inr \<lparr>critique = js ''LGTM.'', approved = True, status = Some (js ''APPROVED''),
          error = None, timedOut = None\<rparr>"
    by (simp only: w s Verdict.simps)
  have y1: "\<not> pr_timedOut ex_approved_run" and y2: "\<not> pr_aborted ex_approved_run"
    and y3: "last_assistant_text (fst (foldl processLine ([], None) (pr_lines ex_approved_run)))
       = ex_approved"
    by (simp_all add: ex_approved_run_def ex_approved_output_def last_assistant_text_def js_def)
  note y4 = ex_approved_nonempty
  note async = verdict_parser[where proc = ex_approved_run and crit = ex_approved
      and timeoutMs = 300000, THEN conjunct2, THEN conjunct2, THEN conjunct2, THEN conjunct2, THEN conjunct2, THEN conjunct2, THEN conjunct2, THEN conjunct2, THEN mp, OF y1, THEN mp, OF y2, THEN mp, OF y3, THEN mp, OF y4]
  from async have z: "\<exists>err. runCritic 300000 (Spawned ex_approved_run) =
      Inr \<lparr>critique = js ''LGTM.'', approved = True, status = Some (js ''APPROVED''),
           error = err, timedOut = Some False\<rparr>"
    by (simp only: s Verdict.simps)
  show ?thesis
    apply (intro conjI)
    apply (rule a c d f b g h i1 i2 k l1 l2 l3 m1 m2 m5 m6 m7 m8 m9 n o p q r s u v w x y1 y2 y3 y4 z)+
    done
qed

text \<open>
  Claim C7, as the code has it.  Neither runner throws to its caller: each returns a result
  for every input, and an exception raised inside (the prompt file cannot be written, the
  spawn call throws) comes back as a result with \<^verbatim>\<open>error\<close> set to the message and the
  critique \<^verbatim>\<open>(Critic error: ...)\<close>.  In \<^verbatim>\<open>runCritic\<close>, a process that ends with an exit
  code other than 0, which includes the launch failure reported by the \<^verbatim>\<open>error\<close> event,
  gives a result whose \<^verbatim>\<open>error\<close> is set; a process that exits with code 0 and leaves
  neither an assistant text nor an error gives \<^verbatim>\<open>Critic returned empty response\<close> with the
  placeholder critique \<^verbatim>\<open>(No response from critic)\<close>.  In \<^verbatim>\<open>runCriticSync\<close>, a process that
  could not be launched gives a result whose \<^verbatim>\<open>error\<close> is the message of the failure.
\<close>

theorem runner_never_throws:
  "(\<exists>r. runCritic timeoutMs env = Inr r) \<and> (\<exists>r. runCriticSync senv = Inr r) \<and>
   runCritic timeoutMs (TempFileThrows err) = Inr (catch_result err) \<and>
   runCritic timeoutMs (SpawnThrows err) = Inr (catch_result err) \<and>
   runCriticSync (TempFileThrows err) = Inr (catch_result err) \<and>
   runCriticSync (SpawnThrows err) = Inr (catch_result err) \<and>
   error (catch_result err) = Some err \<and>
   critique (catch_result err) = js ''(Critic error: '' @ err @ js '')'' \<and>
   exit_code (ProcessError message) = 1 \<and>
   (exit_code (pr_end proc) \<noteq> 0 \<longrightarrow>
      (\<exists>r. runCritic timeoutMs (Spawned proc) = Inr r \<and> truthy (error r))) \<and>
   (\<not> pr_timedOut proc \<longrightarrow> \<not> pr_aborted proc \<longrightarrow> pr_end proc = Closed code \<longrightarrow>
    nullish code 0 = 0 \<longrightarrow>
    last_assistant_text (fst (foldl processLine ([], None) (pr_lines proc))) = [] \<longrightarrow>
    \<not> truthy (snd (foldl processLine ([], None) (pr_lines proc))) \<longrightarrow>
      runCritic timeoutMs (Spawned proc) =
        Inr \<lparr>critique = js ''(No response from critic)'', approved = False,
             status = Some (js ''NEEDS_WORK''),
             error = Some (js ''Critic returned empty response''), timedOut = Some False\<rparr>) \<and>
   (sp_error sp = Some message \<longrightarrow>
      runCriticSync (Spawned sp) =
        Inr \<lparr>critique = [], approved = False, status = None, error = Some message,
             timedOut = None\<rparr>)"
proof (intro conjI impI)
  show "\<exists>r. runCritic timeoutMs env = Inr r" by (rule runCritic_returns)
  show "\<exists>r. runCriticSync senv = Inr r" by (rule runCriticSync_returns)
  show "runCritic timeoutMs (TempFileThrows err) = Inr (catch_result err)"
    "runCritic timeoutMs (SpawnThrows err) = Inr (catch_result err)"
    by (simp_all add: runCritic_def runCritic_try_def)
  show "runCriticSync (TempFileThrows err) = Inr (catch_result err)"
    "runCriticSync (SpawnThrows err) = Inr (catch_result err)"
    by (simp_all add: runCriticSync_def runCriticSync_try_def)
  show "error (catch_result err) = Some err"
    "critique (catch_result err) = js ''(Critic error: '' @ err @ js '')''"
    by (simp_all add: catch_result_def)
  show "exit_code (ProcessError message) = 1" by (simp add: exit_code_def)
next
  assume a: "exit_code (pr_end proc) \<noteq> 0"
  from runCritic_returns obtain r where r: "runCritic timeoutMs (Spawned proc) = Inr r" by blast
  with runCritic_nonzero_exit[OF a r]
  show "\<exists>r. runCritic timeoutMs (Spawned proc) = Inr r \<and> truthy (error r)" by blast
next
  assume a: "\<not> pr_timedOut proc" "\<not> pr_aborted proc" "pr_end proc = Closed code"
    "nullish code 0 = 0"
    "last_assistant_text (fst (foldl processLine ([], None) (pr_lines proc))) = []"
    "\<not> truthy (snd (foldl processLine ([], None) (pr_lines proc)))"
  then have e: "exit_code (pr_end proc) = 0" by (simp add: exit_code_def)
  have f: "foldl processLine ([], None) (pr_lines proc) =
      (fst (foldl processLine ([], None) (pr_lines proc)),
       snd (foldl processLine ([], None) (pr_lines proc)))" by simp
  from runCritic_empty_output[OF a(1,2) e a(3) f a(5,6)]
  show "runCritic timeoutMs (Spawned proc) =
        Inr \<lparr>critique = js ''(No response from critic)'', approved = False,
             status = Some (js ''NEEDS_WORK''),
             error = Some (js ''Critic returned empty response''), timedOut = Some False\<rparr>" .
next
  assume "sp_error sp = Some message"
  then show "runCriticSync (Spawned sp) =
        Inr \<lparr>critique = [], approved = False, status = None, error = Some message,
             timedOut = None\<rparr>"
    by (rule runCriticSync_launch_failure)
qed

theorem runner_never_throws_witness:
  "exit_code (pr_end ex_launch_failure) \<noteq> 0 \<and>
   (\<exists>r. runCritic 60000 (Spawned ex_launch_failure) = Inr r \<and> truthy (error r)) \<and>
   \<not> pr_timedOut ex_silent \<and> \<not> pr_aborted ex_silent \<and> pr_end ex_silent = Closed (Some 0) \<and>
   nullish (Some 0) 0 = (0::int) \<and>
   last_assistant_text (fst (foldl processLine ([], None) (pr_lines ex_silent))) = [] \<and>
   \<not> truthy (snd (foldl processLine ([], None) (pr_lines ex_silent))) \<and>
   runCritic 60000 (Spawned ex_silent) =
     Inr \<lparr>critique = js ''(No response from critic)'', approved = False,
          status = Some (js ''NEEDS_WORK''),
          error = Some (js ''Critic returned empty response''), timedOut = Some False\<rparr> \<and>
   sp_error ex_sync_timeout = Some (js ''spawnSync pi ETIMEDOUT'') \<and>
   runCriticSync (Spawned ex_sync_timeout) =
     Inr \<lparr>critique = [], approved = False, status = None,
          error = Some (js ''spawnSync pi ETIMEDOUT''), timedOut = None\<rparr>"
proof -
  have a: "exit_code (pr_end ex_launch_failure) \<noteq> 0"
    by (simp add: ex_launch_failure_def exit_code_def)
  have b: "\<not> pr_timedOut ex_silent" "\<not> pr_aborted ex_silent" "pr_end ex_silent = Closed (Some 0)"
    "nullish (Some 0) 0 = (0::int)"
    "last_assistant_text (fst (foldl processLine ([], None) (pr_lines ex_silent))) = []"
    "\<not> truthy (snd (foldl processLine ([], None) (pr_lines ex_silent)))"
    by (simp_all add: ex_silent_def last_assistant_text_def)
  have c: "sp_error ex_sync_timeout = Some (js ''spawnSync pi ETIMEDOUT'')"
    by (simp add: ex_sync_timeout_def)
  from a runner_never_throws[where timeoutMs = 60000 and proc = ex_launch_failure]
  have a': "\<exists>r. runCritic 60000 (Spawned ex_launch_failure) = Inr r \<and> truthy (error r)"
    by blast
  from b runner_never_throws[where timeoutMs = 60000 and proc = ex_silent and code = "Some 0"]
  have b': "runCritic 60000 (Spawned ex_silent) =
     Inr \<lparr>critique = js ''(No response from critic)'', approved = False,
          status = Some (js ''NEEDS_WORK''),
          error = Some (js ''Critic returned empty response''), timedOut = Some False\<rparr>"
    by blast
  from c runner_never_throws
    [where sp = ex_sync_timeout and message = "js ''spawnSync pi ETIMEDOUT''"]
  have c': "runCriticSync (Spawned ex_sync_timeout) =
     Inr \<lparr>critique = [], approved = False, status = None,
          error = Some (js ''spawnSync pi ETIMEDOUT''), timedOut = None\<rparr>"
    by blast
  from a a' b b' c c' show ?thesis by blast
qed

text \<open>
  The claim as stated fails: when the reviewer cannot be launched under \<^verbatim>\<open>spawn\<close>,
  \<^verbatim>\<open>runCritic\<close> returns the error with an empty critique, no placeholder.
\<close>

theorem launch_failure_without_placeholder:
  "runCritic 60000 (Spawned ex_launch_failure) =
     Inr \<lparr>critique = [], approved = False, status = Some (js ''NEEDS_WORK''),
          error = Some (js ''spawn pi ENOENT''), timedOut = Some False\<rparr>"
  by (simp add: run_defs parse_empty) (simp add: js_def)

text \<open>
  Claim C6 at the input \<^verbatim>\<open>spawnSync\<close> returns when its timeout expires.  The check of
  \<^verbatim>\<open>spawnResult.error\<close> comes first and returns, so the branch that sets \<^verbatim>\<open>timedOut\<close> is
  not reached: the result has its error set and is not approved, \<^verbatim>\<open>timedOut\<close> stays unset.
  \<^verbatim>\<open>triggerCritic\<close> then displays the result and routes no feedback.
\<close>

theorem sync_timeout_not_flagged:
  "runCriticSync (Spawned ex_sync_timeout) =
     Inr \<lparr>critique = [], approved = False, status = None,
          error = Some (js ''spawnSync pi ETIMEDOUT''), timedOut = None\<rparr> \<and>
   snd (triggerCritic ex_enabled ex_fresh (js ''ctx'') True
          (runCriticSync (Spawned ex_sync_timeout))) =
     [RunReviewer (js ''ctx'') True,
      SendMessage (display_message
         \<lparr>critique = [], approved = False, status = None,
          error = Some (js ''spawnSync pi ETIMEDOUT''), timedOut = None\<rparr> (js ''ctx''))]"
  by (simp add: run_defs ev_defs)

section \<open>Feedback routing\<close>

text \<open>
  Claim C5, as the code has it.  For a review that ran (the critic enabled, no review in
  flight, the counter below the cap) and returned a result, \<^verbatim>\<open>triggerCritic\<close> runs the
  reviewer, sends the display message, and then sends the critique to the agent, as a
  follow-up prefixed \<^verbatim>\<open>[Critic feedback]: \<close>, exactly when the result is a non-approval, its
  error is not set (absent or the empty string), its critique is non-empty after trimming
  white space, and the counter, which already counts this review, is below the cap.  In
  every other case, so for an approval or a result with an error, the display message is all
  that is sent.
\<close>

theorem feedback_routing:
  "enabled st \<longrightarrow> \<not> isProcessingCritic rt \<longrightarrow> reviewsThisPrompt rt < maxReviewsPerPrompt st \<longrightarrow>
   snd (triggerCritic st rt c u (Inr r)) =
     RunReviewer c u # SendMessage (display_message r c) #
     (if \<not> approved r \<and> \<not> truthy (error r) \<and> trim (critique r) \<noteq> [] \<and>
         reviewsThisPrompt rt + 1 < maxReviewsPerPrompt st
      then [SendUserMessage (js ''[Critic feedback]: '' @ critique r) FollowUp] else [])"
  by (simp add: triggerCritic_def triggerCritic_begin_def triggerCritic_finish_def
      feedback_message_def)

theorem feedback_routing_witness:
  "enabled ex_enabled \<and> \<not> isProcessingCritic ex_fresh \<and>
   reviewsThisPrompt ex_fresh < maxReviewsPerPrompt ex_enabled \<and>
   snd (triggerCritic ex_enabled ex_fresh (js ''ctx'') True (Inr ex_needs_work)) =
     RunReviewer (js ''ctx'') True # SendMessage (display_message ex_needs_work (js ''ctx'')) #
     (if \<not> approved ex_needs_work \<and> \<not> truthy (error ex_needs_work) \<and>
         trim (critique ex_needs_work) \<noteq> [] \<and>
         reviewsThisPrompt ex_fresh + 1 < maxReviewsPerPrompt ex_enabled
      then [SendUserMessage (js ''[Critic feedback]: '' @ critique ex_needs_work) FollowUp]
      else [])"
proof -
  have a: "enabled ex_enabled"
    and b: "\<not> isProcessingCritic ex_fresh"
    and c: "reviewsThisPrompt ex_fresh < maxReviewsPerPrompt ex_enabled"
    by (simp_all add: ex_enabled_def ex_fresh_def initial_state_def)
  from a b c feedback_routing[of ex_enabled ex_fresh "js ''ctx''" True ex_needs_work]
  have d: "snd (triggerCritic ex_enabled ex_fresh (js ''ctx'') True (Inr ex_needs_work)) =
     RunReviewer (js ''ctx'') True # SendMessage (display_message ex_needs_work (js ''ctx'')) #
     (if \<not> approved ex_needs_work \<and> \<not> truthy (error ex_needs_work) \<and>
         trim (critique ex_needs_work) \<noteq> [] \<and>
         reviewsThisPrompt ex_fresh + 1 < maxReviewsPerPrompt ex_enabled
      then [SendUserMessage (js ''[Critic feedback]: '' @ critique ex_needs_work) FollowUp]
      else [])"
    by blast
  from a b c d show ?thesis by blast
qed

text \<open>
  The claim as stated fails on a critique of white space only, which \<^verbatim>\<open>runCriticSync\<close>
  returns when the reviewer prints a blank text: the result is a non-approval without error,
  its critique text is not empty, the counter is below the cap after the review, and yet no
  user message is sent.
\<close>

theorem no_feedback_for_blank_critique:
  "runCriticSync (Spawned ex_blank_output) = Inr ex_blank \<and>
   \<not> approved ex_blank \<and> error ex_blank = None \<and> critique ex_blank \<noteq> [] \<and>
   reviewsThisPrompt (fst (triggerCritic ex_enabled ex_fresh (js ''ctx'') True (Inr ex_blank)))
     < maxReviewsPerPrompt ex_enabled \<and>
   snd (triggerCritic ex_enabled ex_fresh (js ''ctx'') True (Inr ex_blank)) =
     [RunReviewer (js ''ctx'') True, SendMessage (display_message ex_blank (js ''ctx''))]"
  by (simp add: runCriticSync_blank_output) (simp add: ev_defs)

end
